theory Spec2Isabelle
  imports Main "HOL-Library.Word" "HOL-Library.Sublist" "HOL-Library.Multiset"
begin

unbundle bit_operations_syntax

section \<open>JavaScript values used by both stages\<close>

text \<open>
  A JavaScript string is a sequence of 16-bit code units; \<open>charCodeAt\<close> reads one of them.
  ASCII literals of the source are written \<open>js ''...''\<close>.
\<close>

type_synonym jschar = "16 word"
type_synonym jsstring = "jschar list"

definition js :: "string \<Rightarrow> jsstring" where
  "js s = map of_char s"

text \<open>\<open>s.indexOf(pat)\<close>: the first position where \<open>pat\<close> occurs in \<open>s\<close>, or \<open>-1\<close>.\<close>

fun indexOf :: "jsstring \<Rightarrow> jsstring \<Rightarrow> int" where
  "indexOf [] pat = (if pat = [] then 0 else - 1)"
| "indexOf (c # t) pat =
     (if prefix pat (c # t) then 0
      else (let r = indexOf t pat in if r < 0 then - 1 else r + 1))"

text \<open>\<open>s.includes(pat)\<close>.\<close>

definition js_includes :: "jsstring \<Rightarrow> jsstring \<Rightarrow> bool" where
  "js_includes s pat = (indexOf s pat \<noteq> - 1)"

text \<open>
  \<open>toLowerCase\<close> on the ASCII letters. On other code units JavaScript applies the Unicode
  lower-case mapping; the program only ever compares the result with ASCII literals
  (\<open>format\<close>, \<open>width\<close>, \<open>image/png\<close>, ...), and no code unit outside ASCII is mapped
  onto a single ASCII letter occurring in those literals, so such units are kept as they are.
\<close>

definition lower_unit :: "jschar \<Rightarrow> jschar" where
  "lower_unit c = (if 0x41 \<le> c \<and> c \<le> 0x5A then c + 0x20 else c)"

definition toLowerCase :: "jsstring \<Rightarrow> jsstring" where
  "toLowerCase s = map lower_unit s"

text \<open>
  A Number produced by \<open>parseInt\<close>: \<open>NaN\<close> or an integer. \<open>Num n\<close> stands for the
  double nearest to \<open>n\<close>; the comparisons of the program (with 0, 100, 4000 and the size
  ceilings) give the same answer on \<open>n\<close> and on that double.
\<close>

datatype jsnum = NaN | Num int

definition StrWhiteSpaceChar :: "jschar \<Rightarrow> bool" where
  "StrWhiteSpaceChar c =
     (c = 0x9 \<or> c = 0xA \<or> c = 0xB \<or> c = 0xC \<or> c = 0xD \<or> c = 0x20 \<or> c = 0xA0
      \<or> c = 0x1680 \<or> (0x2000 \<le> c \<and> c \<le> 0x200A) \<or> c = 0x2028 \<or> c = 0x2029
      \<or> c = 0x202F \<or> c = 0x205F \<or> c = 0x3000 \<or> c = 0xFEFF)"

definition digit_value :: "jschar \<Rightarrow> nat option" where
  "digit_value c =
     (if 0x30 \<le> c \<and> c \<le> 0x39 then Some (unat c - 48)
      else if 0x61 \<le> c \<and> c \<le> 0x7A then Some (unat c - 87)
      else if 0x41 \<le> c \<and> c \<le> 0x5A then Some (unat c - 55)
      else None)"

definition radix_digit :: "nat \<Rightarrow> jschar \<Rightarrow> bool" where
  "radix_digit R c = (case digit_value c of None \<Rightarrow> False | Some d \<Rightarrow> d < R)"

fun digits_value :: "nat \<Rightarrow> nat \<Rightarrow> jsstring \<Rightarrow> nat" where
  "digits_value R acc [] = acc"
| "digits_value R acc (c # cs) =
     (case digit_value c of None \<Rightarrow> acc | Some d \<Rightarrow> digits_value R (acc * R + d) cs)"

text \<open>
  \<open>parseInt(string)\<close> without a radix: leading white space is skipped, a sign is read, a
  \<open>0x\<close>/\<open>0X\<close> prefix selects radix 16, and the longest prefix of digits is the value;
  no digit at all gives \<open>NaN\<close>.
\<close>

definition parseInt :: "jsstring \<Rightarrow> jsnum" where
  "parseInt inputString =
     (let S = dropWhile StrWhiteSpaceChar inputString;
          sign = (if prefix (js ''-'') S then - 1 else 1);
          S1 = (if prefix (js ''+'') S \<or> prefix (js ''-'') S then tl S else S);
          hex = (prefix (js ''0x'') S1 \<or> prefix (js ''0X'') S1);
          R = (if hex then 16 else 10);
          S2 = (if hex then drop 2 S1 else S1);
          Z = takeWhile (radix_digit R) S2
      in if Z = [] then NaN else Num (sign * int (digits_value R 0 Z)))"

text \<open>\<open>Number.prototype.toString\<close> on an integer: its decimal digits.\<close>

fun nat_digits :: "nat \<Rightarrow> jsstring" where
  "nat_digits n =
     (if n < 10 then [of_nat (48 + n)] else nat_digits (n div 10) @ [of_nat (48 + n mod 10)])"

declare nat_digits.simps [simp del]

definition int_toString :: "int \<Rightarrow> jsstring" where
  "int_toString n = (if n < 0 then js ''-'' @ nat_digits (nat (- n)) else nat_digits (nat n))"

text \<open>\<open>Array.prototype.join\<close> on strings.\<close>

fun join :: "jsstring \<Rightarrow> jsstring list \<Rightarrow> jsstring" where
  "join sep [] = []"
| "join sep [x] = x"
| "join sep (x # y # ys) = x @ sep @ join sep (y # ys)"

text \<open>
  The test \<open>/^https?:\/\/.+/i\<close> of both stages: \<open>http://\<close> or \<open>https://\<close> in any
  letter case, followed by at least one code unit that is not a line terminator.
\<close>

definition LineTerminator :: "jschar \<Rightarrow> bool" where
  "LineTerminator c = (c = 0xA \<or> c = 0xD \<or> c = 0x2028 \<or> c = 0x2029)"

definition starts_with_ci :: "jsstring \<Rightarrow> jsstring \<Rightarrow> bool" where
  "starts_with_ci p s =
     (length p < length s \<and> toLowerCase (take (length p) s) = p
      \<and> \<not> LineTerminator (s ! length p))"

definition matches_http_url :: "jsstring \<Rightarrow> bool" where
  "matches_http_url s = (starts_with_ci (js ''http://'') s \<or> starts_with_ci (js ''https://'') s)"

section \<open>The edge stage: \<open>functions/url-rewrite/index.js\<close>\<close>

text \<open>
  The viewer request. \<open>querystring\<close> and \<open>headers\<close> are JavaScript objects: the list
  holds the entries in the order of \<open>Object.keys\<close>, each key with its \<open>value\<close>;
  \<open>None\<close> is an absent object.
\<close>

record request =
  uri :: jsstring
  querystring :: "(jsstring \<times> jsstring) list option"
  headers :: "(jsstring \<times> jsstring) list option"

text \<open>
  A response object of either stage. A property that the object literal does not set is
  \<open>None\<close>.
\<close>

record response =
  statusCode :: nat
  statusDescription :: "jsstring option"
  body :: "jsstring option"
  isBase64Encoded :: "bool option"
  response_headers :: "(jsstring \<times> jsstring) list option"

datatype edge_result = Forward request | Respond response

text \<open>The object \<open>normalizedOperations\<close>; only these four keys are ever assigned.\<close>

record normalized_ops =
  n_format :: "jsstring option"
  n_quality :: "jsstring option"
  n_width :: "jsstring option"
  n_height :: "jsstring option"

definition no_operations :: normalized_ops where
  "no_operations = \<lparr>n_format = None, n_quality = None, n_width = None, n_height = None\<rparr>"

definition base64chars :: jsstring where
  "base64chars = js ''ABCDEFGHIJKLMNOPQRSTUVWXYZabcdefghijklmnopqrstuvwxyz0123456789+/''"

definition charAt :: "jsstring \<Rightarrow> nat \<Rightarrow> jsstring" where
  "charAt s n = (if n < length s then [s ! n] else [])"

text \<open>
  One round of the \<open>while\<close> loop of \<open>base64Encode\<close>: \<open>a\<close>, \<open>b\<close>, \<open>c\<close> are the char codes
  read (0 past the end), \<open>charsRead\<close> how many were read. The bit operations work on
  32-bit integers; \<open>>>\<close> is the sign-propagating shift.
\<close>

definition encode_round :: "32 word \<Rightarrow> 32 word \<Rightarrow> 32 word \<Rightarrow> nat \<Rightarrow> jsstring" where
  "encode_round a b c charsRead =
     (let bitmap = push_bit 16 a OR push_bit 8 b OR c in
        charAt base64chars (unat (signed_drop_bit 18 bitmap AND 63))
      @ charAt base64chars (unat (signed_drop_bit 12 bitmap AND 63))
      @ (if charsRead > 1 then charAt base64chars (unat (signed_drop_bit 6 bitmap AND 63))
         else js ''='')
      @ (if charsRead > 2 then charAt base64chars (unat (bitmap AND 63)) else js ''=''))"

fun base64Encode :: "jsstring \<Rightarrow> jsstring" where
  "base64Encode [] = []"
| "base64Encode [a] = encode_round (ucast a) 0 0 1"
| "base64Encode [a, b] = encode_round (ucast a) (ucast b) 0 2"
| "base64Encode (a # b # c # rest) =
     encode_round (ucast a) (ucast b) (ucast c) 3 @ base64Encode rest"

text \<open>\<open>.replace(/x/g, y)\<close> for single characters, and \<open>.replace(/=+$/, '')\<close>.\<close>

definition replace_char :: "jschar \<Rightarrow> jschar \<Rightarrow> jsstring \<Rightarrow> jsstring" where
  "replace_char x y s = map (\<lambda>c. if c = x then y else c) s"

definition strip_padding :: "jsstring \<Rightarrow> jsstring" where
  "strip_padding s = rev (dropWhile (\<lambda>c. c = 0x3D) (rev s))"

definition encodeUrl :: "jsstring \<Rightarrow> jsstring" where
  "encodeUrl imageUrl =
     strip_padding (replace_char 0x2F 0x5F (replace_char 0x2B 0x2D (base64Encode imageUrl)))"

definition SUPPORTED_FORMATS :: "jsstring list" where
  "SUPPORTED_FORMATS =
     [js ''auto'', js ''jpeg'', js ''webp'', js ''avif'', js ''png'', js ''svg'', js ''gif'']"

text \<open>The resolution of \<open>format=auto\<close> from the \<open>accept\<close> header (lines 85-95).\<close>

definition auto_format :: "request \<Rightarrow> jsstring" where
  "auto_format request =
     (case headers request of
        None \<Rightarrow> js ''jpeg''
      | Some hs \<Rightarrow>
          (case map_of hs (js ''accept'') of
             None \<Rightarrow> js ''jpeg''
           | Some acceptValue \<Rightarrow>
               if indexOf acceptValue (js ''avif'') \<noteq> - 1 then js ''avif''
               else if indexOf acceptValue (js ''webp'') \<noteq> - 1 then js ''webp''
               else js ''jpeg''))"

text \<open>
  The body of the \<open>for\<close> loop over \<open>Object.keys(request.querystring)\<close>, for the key
  \<open>operation\<close>. \<open>qs\<close> is the query-string object; a key of the object always has an entry.
\<close>

definition loop_body ::
  "request \<Rightarrow> (jsstring \<times> jsstring) list \<Rightarrow> jsstring \<Rightarrow> normalized_ops \<Rightarrow> normalized_ops" where
  "loop_body request qs operation normalizedOperations =
     (if operation = js ''url'' then normalizedOperations
      else
        (let opLower = toLowerCase operation;
             v = (case map_of qs operation of None \<Rightarrow> [] | Some x \<Rightarrow> x)
         in
           if opLower = js ''format'' then
             (if v \<noteq> [] then
                (let formatValue = toLowerCase v in
                   if formatValue \<in> set SUPPORTED_FORMATS then
                     normalizedOperations\<lparr>n_format :=
                       Some (if formatValue = js ''auto'' then auto_format request
                             else formatValue)\<rparr>
                   else normalizedOperations)
              else normalizedOperations)
           else if opLower = js ''width'' then
             (if v \<noteq> [] then
                (case parseInt v of
                   NaN \<Rightarrow> normalizedOperations
                 | Num width \<Rightarrow>
                     if width > 0 \<and> width \<le> 4000 then
                       normalizedOperations\<lparr>n_width := Some (int_toString width)\<rparr>
                     else normalizedOperations)
              else normalizedOperations)
           else if opLower = js ''height'' then
             (if v \<noteq> [] then
                (case parseInt v of
                   NaN \<Rightarrow> normalizedOperations
                 | Num height \<Rightarrow>
                     if height > 0 \<and> height \<le> 4000 then
                       normalizedOperations\<lparr>n_height := Some (int_toString height)\<rparr>
                     else normalizedOperations)
              else normalizedOperations)
           else if opLower = js ''quality'' then
             (if v \<noteq> [] then
                (case parseInt v of
                   NaN \<Rightarrow> normalizedOperations
                 | Num quality \<Rightarrow>
                     if quality > 0 then
                       normalizedOperations\<lparr>n_quality :=
                         Some (int_toString (if quality > 100 then 100 else quality))\<rparr>
                     else normalizedOperations)
              else normalizedOperations)
           else normalizedOperations))"

text \<open>The whole loop, started on the empty object.\<close>

definition normalize_operations :: "request \<Rightarrow> (jsstring \<times> jsstring) list \<Rightarrow> normalized_ops" where
  "normalize_operations request qs = fold (loop_body request qs) (map fst qs) no_operations"

text \<open>
  Lines 124-133: \<open>operationsSuffix\<close>. A property of the object is truthy when it is set to a
  non-empty string.
\<close>

definition truthy :: "jsstring option \<Rightarrow> bool" where
  "truthy x = (case x of None \<Rightarrow> False | Some s \<Rightarrow> s \<noteq> [])"

definition push_if :: "jsstring \<Rightarrow> jsstring option \<Rightarrow> jsstring list" where
  "push_if name x = (if truthy x then [name @ the x] else [])"

definition operationsSuffix :: "normalized_ops \<Rightarrow> jsstring" where
  "operationsSuffix normalizedOperations =
     (if normalizedOperations = no_operations then js ''original''
      else join (js '','')
             (push_if (js ''format='') (n_format normalizedOperations)
            @ push_if (js ''quality='') (n_quality normalizedOperations)
            @ push_if (js ''width='') (n_width normalizedOperations)
            @ push_if (js ''height='') (n_height normalizedOperations)))"

text \<open>The two object literals returned at lines 14-18 and 25-29.\<close>

definition missing_url :: response where
  "missing_url =
     \<lparr>statusCode = 400, statusDescription = Some (js ''Bad Request''),
      body = Some (js ''Missing required parameter: url''),
      isBase64Encoded = None, response_headers = None\<rparr>"

definition invalid_url :: response where
  "invalid_url =
     \<lparr>statusCode = 400, statusDescription = Some (js ''Bad Request''),
      body = Some (js ''Invalid URL format''),
      isBase64Encoded = None, response_headers = None\<rparr>"

text \<open>The function \<open>handler\<close> of the URL rewriter.\<close>

definition rewrite_handler :: "request \<Rightarrow> edge_result" where
  "rewrite_handler request =
     (if indexOf (uri request) (js ''/proxy/'') = 0 then Forward request
      else
        (case querystring request of
           None \<Rightarrow> Respond missing_url
         | Some qs \<Rightarrow>
             (case map_of qs (js ''url'') of
                None \<Rightarrow> Respond missing_url
              | Some imageUrl \<Rightarrow>
                  if imageUrl = [] then Respond missing_url
                  else if \<not> matches_http_url imageUrl then Respond invalid_url
                  else
                    Forward (request\<lparr>
                      uri := js ''/proxy/'' @ encodeUrl imageUrl @ js ''/''
                             @ operationsSuffix (normalize_operations request qs),
                      querystring := Some []\<rparr>))))"

section \<open>The origin stage: \<open>functions/image-processing/index.mjs\<close>\<close>

subsection \<open>Library functions of the runtime\<close>

type_synonym bytes = "8 word list"

text \<open>
  \<open>Buffer.from(s, 'base64')\<close>. The decoder reads one byte from each code unit of the
  string, its low eight bits. It accepts the standard and the URL-safe alphabet, skips every
  other byte, stops at the first byte \<open>=\<close>, and needs no padding: a last group of two or
  three characters gives one or two bytes.
\<close>

definition unbase64 :: "8 word \<Rightarrow> 32 word option" where
  "unbase64 x =
     (if 0x41 \<le> x \<and> x \<le> 0x5A then Some (ucast x - 65)
      else if 0x61 \<le> x \<and> x \<le> 0x7A then Some (ucast x - 71)
      else if 0x30 \<le> x \<and> x \<le> 0x39 then Some (ucast x + 4)
      else if x = 0x2B \<or> x = 0x2D then Some 62
      else if x = 0x2F \<or> x = 0x5F then Some 63
      else None)"

fun sextets :: "jsstring \<Rightarrow> 32 word list" where
  "sextets [] = []"
| "sextets (c # cs) =
     (if (ucast c :: 8 word) = 0x3D then []
      else (case unbase64 (ucast c) of None \<Rightarrow> sextets cs | Some v \<Rightarrow> v # sextets cs))"

fun group_bytes :: "32 word list \<Rightarrow> bytes" where
  "group_bytes (s0 # s1 # s2 # s3 # rest) =
     (let v = push_bit 18 s0 OR push_bit 12 s1 OR push_bit 6 s2 OR s3 in
        [ucast (drop_bit 16 v), ucast (drop_bit 8 v), ucast v] @ group_bytes rest)"
| "group_bytes [s0, s1, s2] =
     (let v = push_bit 18 s0 OR push_bit 12 s1 OR push_bit 6 s2 in
        [ucast (drop_bit 16 v), ucast (drop_bit 8 v)])"
| "group_bytes [s0, s1] =
     (let v = push_bit 18 s0 OR push_bit 12 s1 in [ucast (drop_bit 16 v)])"
| "group_bytes _ = []"

definition Buffer_from_base64 :: "jsstring \<Rightarrow> bytes" where
  "Buffer_from_base64 s = group_bytes (sextets s)"

text \<open>
  \<open>buf.toString('utf-8')\<close>: the UTF-8 decoder, which replaces every ill-formed sequence
  by U+FFFD. \<open>start_byte\<close> is the decoder on a byte read when no sequence is open; an open
  sequence is the code point so far, the number of bytes still needed and the bounds for
  the next byte.
\<close>

datatype start = Emit nat | Lead nat nat nat nat | Invalid

definition start_byte :: "8 word \<Rightarrow> start" where
  "start_byte b =
     (let n = unat b in
        if n \<le> 0x7F then Emit n
        else if 0xC2 \<le> n \<and> n \<le> 0xDF then Lead (n mod 32) 1 0x80 0xBF
        else if 0xE0 \<le> n \<and> n \<le> 0xEF then
          Lead (n mod 16) 2 (if n = 0xE0 then 0xA0 else 0x80) (if n = 0xED then 0x9F else 0xBF)
        else if 0xF0 \<le> n \<and> n \<le> 0xF4 then
          Lead (n mod 8) 3 (if n = 0xF0 then 0x90 else 0x80) (if n = 0xF4 then 0x8F else 0xBF)
        else Invalid)"

fun utf8_points :: "nat \<Rightarrow> nat \<Rightarrow> nat \<Rightarrow> nat \<Rightarrow> bytes \<Rightarrow> nat list" where
  "utf8_points cp needed lower upper [] = (if needed = 0 then [] else [0xFFFD])"
| "utf8_points cp needed lower upper (b # bs) =
     (if needed \<noteq> 0 \<and> lower \<le> unat b \<and> unat b \<le> upper then
        (if needed = 1 then (cp * 64 + unat b mod 64) # utf8_points 0 0 0x80 0xBF bs
         else utf8_points (cp * 64 + unat b mod 64) (needed - 1) 0x80 0xBF bs)
      else
        (if needed \<noteq> 0 then [0xFFFD] else [])
        @ (case start_byte b of
             Emit c \<Rightarrow> c # utf8_points 0 0 0x80 0xBF bs
           | Lead c k lo hi \<Rightarrow> utf8_points c k lo hi bs
           | Invalid \<Rightarrow> 0xFFFD # utf8_points 0 0 0x80 0xBF bs))"

definition utf16_units :: "nat \<Rightarrow> jsstring" where
  "utf16_units cp =
     (if cp < 0x10000 then [of_nat cp]
      else [of_nat (0xD800 + (cp - 0x10000) div 0x400),
            of_nat (0xDC00 + (cp - 0x10000) mod 0x400)])"

definition toString_utf8 :: "bytes \<Rightarrow> jsstring" where
  "toString_utf8 buf = concat (map utf16_units (utf8_points 0 0 0x80 0xBF buf))"

text \<open>
  \<open>Buffer.from(s)\<close>: the UTF-8 encoding of a string, a surrogate without its partner
  encoded as U+FFFD.
\<close>

definition utf8_bytes :: "nat \<Rightarrow> bytes" where
  "utf8_bytes cp =
     (if cp < 0x80 then [of_nat cp]
      else if cp < 0x800 then [of_nat (0xC0 + cp div 64), of_nat (0x80 + cp mod 64)]
      else if cp < 0x10000 then
        [of_nat (0xE0 + cp div 4096), of_nat (0x80 + cp div 64 mod 64), of_nat (0x80 + cp mod 64)]
      else
        [of_nat (0xF0 + cp div 262144), of_nat (0x80 + cp div 4096 mod 64),
         of_nat (0x80 + cp div 64 mod 64), of_nat (0x80 + cp mod 64)])"

definition high_surrogate :: "jschar \<Rightarrow> bool" where
  "high_surrogate c = (0xD800 \<le> c \<and> c \<le> 0xDBFF)"

definition low_surrogate :: "jschar \<Rightarrow> bool" where
  "low_surrogate c = (0xDC00 \<le> c \<and> c \<le> 0xDFFF)"

fun Buffer_from :: "jsstring \<Rightarrow> bytes" where
  "Buffer_from [] = []"
| "Buffer_from [c] =
     utf8_bytes (if high_surrogate c \<or> low_surrogate c then 0xFFFD else unat c)"
| "Buffer_from (c # d # cs) =
     (if high_surrogate c \<and> low_surrogate d then
        utf8_bytes (0x10000 + (unat c - 0xD800) * 0x400 + (unat d - 0xDC00)) @ Buffer_from cs
      else
        utf8_bytes (if high_surrogate c \<or> low_surrogate c then 0xFFFD else unat c)
        @ Buffer_from (d # cs))"

text \<open>
  \<open>buf.toString('base64')\<close>: standard base64 with padding, which is what
  \<open>base64Encode\<close> computes on a string of char codes below 256.
\<close>

definition toString_base64 :: "bytes \<Rightarrow> jsstring" where
  "toString_base64 buf = base64Encode (map ucast buf)"

text \<open>\<open>s.split(sep)\<close> for a separator of one character.\<close>

fun split :: "jschar \<Rightarrow> jsstring \<Rightarrow> jsstring list" where
  "split sep [] = [[]]"
| "split sep (c # cs) =
     (if c = sep then [] # split sep cs
      else (case split sep cs of [] \<Rightarrow> [[c]] | x # xs \<Rightarrow> (c # x) # xs))"

text \<open>
  \<open>JSON.stringify({ error: body })\<close> for a string \<open>body\<close>: the quoted string has the
  escapes of \<open>QuoteJSONString\<close>, and a surrogate without its partner is written
  \<open>\uXXXX\<close>.
\<close>

definition hex_digit :: "nat \<Rightarrow> jschar" where
  "hex_digit d = (if d < 10 then of_nat (48 + d) else of_nat (87 + d))"

text \<open>The backslash (92) and the double quote (34) are written by their codes.\<close>

definition unicode_escape :: "jschar \<Rightarrow> jsstring" where
  "unicode_escape c =
     [0x5C] @ js ''u'' @ [hex_digit (unat c div 4096), hex_digit (unat c div 256 mod 16),
                        hex_digit (unat c div 16 mod 16), hex_digit (unat c mod 16)]"

definition quote_unit :: "jschar \<Rightarrow> jsstring" where
  "quote_unit c =
     (if c = 0x8 then [0x5C] @ js ''b'' else if c = 0x9 then [0x5C] @ js ''t''
      else if c = 0xA then [0x5C] @ js ''n'' else if c = 0xC then [0x5C] @ js ''f''
      else if c = 0xD then [0x5C] @ js ''r'' else if c = 0x22 then [0x5C, 0x22]
      else if c = 0x5C then [0x5C, 0x5C]
      else if c < 0x20 \<or> high_surrogate c \<or> low_surrogate c then unicode_escape c
      else [c])"

fun quote_units :: "jsstring \<Rightarrow> jsstring" where
  "quote_units [] = []"
| "quote_units [c] = quote_unit c"
| "quote_units (c # d # cs) =
     (if high_surrogate c \<and> low_surrogate d then c # d # quote_units cs
      else quote_unit c @ quote_units (d # cs))"

definition QuoteJSONString :: "jsstring \<Rightarrow> jsstring" where
  "QuoteJSONString s = [0x22] @ quote_units s @ [0x22]"

definition JSON_stringify_error :: "jsstring \<Rightarrow> jsstring" where
  "JSON_stringify_error message =
     js ''{'' @ [0x22] @ js ''error'' @ [0x22] @ js '':'' @ QuoteJSONString message @ js ''}''"

subsection \<open>Errors, the environment and the effects of the handler\<close>

record js_error =
  name :: jsstring
  message :: jsstring

text \<open>\<open>new Error(msg)\<close>.\<close>

definition Error :: "jsstring \<Rightarrow> js_error" where
  "Error msg = \<lparr>name = js ''Error'', message = msg\<rparr>"

record parsed_url =
  protocol :: jsstring
  hostname :: jsstring

text \<open>What \<open>fetch\<close> resolves to: the response, with the two headers that are read.\<close>

record http_response =
  ok :: bool
  status :: nat
  statusText :: jsstring
  content_type :: "jsstring option"
  content_length :: "jsstring option"
  arrayBuffer :: "js_error + bytes"

text \<open>
  The calls made on the Sharp object: \<open>resize(resizingOptions)\<close> (always with
  \<open>fit: 'inside'\<close> and \<open>withoutEnlargement: true\<close>), \<open>rotate()\<close> and
  \<open>toFormat(format)\<close> or \<open>toFormat(format, {quality})\<close>.
\<close>

record resizing_options =
  width :: "jsnum option"
  height :: "jsnum option"

record sharp_calls =
  resize :: "resizing_options option"
  rotate :: bool
  toFormat :: "(jsstring \<times> jsnum option) option"

record put_object =
  Body :: bytes
  Bucket :: jsstring
  Key :: jsstring
  ContentType :: jsstring
  CacheControl :: jsstring
  Metadata :: "(jsstring \<times> jsstring) list"

text \<open>The calls to the outside that one invocation makes, in order.\<close>

datatype effect =
    Resolve4 jsstring
  | Resolve6 jsstring
  | Fetch jsstring
  | SharpMetadata bytes
  | Sharp bytes sharp_calls
  | S3Send put_object

text \<open>
  The environment of an invocation: the constants read from \<open>process.env\<close> at lines
  10-14 (\<open>MAX_IMAGE_SIZE\<close> is the result of \<open>parseInt\<close>, possibly \<open>NaN\<close>), the answers
  of the URL parser, the resolver, the network, the codec and the object store, where
  \<open>Inl\<close> is a thrown error or a rejected promise, and the three durations as
  \<open>parseInt(performance.now() - startTime)\<close> prints them.
\<close>

record world =
  S3_TRANSFORMED_IMAGE_BUCKET :: "jsstring option"
  TRANSFORMED_IMAGE_CACHE_TTL :: jsstring
  MAX_IMAGE_SIZE :: jsnum
  MAX_FILE_SIZE :: int
  new_URL :: "jsstring \<Rightarrow> js_error + parsed_url"
  resolve4 :: "jsstring \<Rightarrow> js_error + jsstring list"
  resolve6 :: "jsstring \<Rightarrow> js_error + jsstring list"
  fetch :: "jsstring \<Rightarrow> js_error + http_response"
  sharp_metadata :: "bytes \<Rightarrow> js_error + bool"
  sharp_toBuffer :: "bytes \<Rightarrow> sharp_calls \<Rightarrow> js_error + bytes"
  s3_send :: "put_object \<Rightarrow> js_error + unit"
  download_dur :: jsstring
  transform_dur :: jsstring
  upload_dur :: jsstring

text \<open>\<open>event.requestContext.http\<close>; \<open>None\<close> when it or \<open>requestContext\<close> is absent.\<close>

record http_request =
  http_method :: jsstring
  path :: jsstring

type_synonym event = "http_request option"

text \<open>An invocation ends with a response or with an error that nothing catches.\<close>

datatype outcome = Response response | Unhandled js_error

subsection \<open>\<open>sendError\<close> (lines 319-329)\<close>

definition sendError :: "nat \<Rightarrow> jsstring \<Rightarrow> response" where
  "sendError code msg =
     \<lparr>statusCode = code, statusDescription = None,
      body = Some (JSON_stringify_error msg), isBase64Encoded = None,
      response_headers = Some [(js ''Content-Type'', js ''application/json''),
                               (js ''Cache-Control'', js ''no-store'')]\<rparr>"

subsection \<open>\<open>validateUrl\<close> (lines 19-35 and 49-77)\<close>

text \<open>The regular expressions of \<open>BLOCKED_IP_RANGES\<close>, each as its test on a string.\<close>

definition prefix_ci :: "jsstring \<Rightarrow> jsstring \<Rightarrow> bool" where
  "prefix_ci p s = (length p \<le> length s \<and> toLowerCase (take (length p) s) = p)"

definition digit_between :: "jschar \<Rightarrow> jschar \<Rightarrow> jschar \<Rightarrow> bool" where
  "digit_between lo hi c = (lo \<le> c \<and> c \<le> hi)"

text \<open>\<open>/^172\.(1[6-9]|2[0-9]|3[0-1])\./\<close>\<close>

definition range_172 :: "jsstring \<Rightarrow> bool" where
  "range_172 ip =
     (prefix (js ''172.'') ip \<and> 7 \<le> length ip \<and> ip ! 6 = 0x2E
      \<and> ((ip ! 4 = 0x31 \<and> digit_between 0x36 0x39 (ip ! 5))
         \<or> (ip ! 4 = 0x32 \<and> digit_between 0x30 0x39 (ip ! 5))
         \<or> (ip ! 4 = 0x33 \<and> digit_between 0x30 0x31 (ip ! 5))))"

definition BLOCKED_IP_RANGES :: "(jsstring \<Rightarrow> bool) list" where
  "BLOCKED_IP_RANGES =
     [prefix (js ''10.''),
      range_172,
      prefix (js ''192.168.''),
      prefix (js ''127.''),
      prefix (js ''169.254.''),
      prefix (js ''0.''),
      prefix (js ''224.''),
      prefix (js ''240.''),
      (\<lambda>ip. ip = js ''::1''),
      prefix (js ''::''),
      prefix_ci (js ''fe80:''),
      prefix_ci (js ''fc00:''),
      prefix_ci (js ''fd00:''),
      prefix_ci (js ''ff00:'')]"

definition blocked_ip :: "jsstring \<Rightarrow> bool" where
  "blocked_ip ip = (\<exists>range \<in> set BLOCKED_IP_RANGES. range ip)"

text \<open>
  Lines 59-62: the addresses of both families, a failed resolution counting as no address.
\<close>

definition allIps :: "world \<Rightarrow> jsstring \<Rightarrow> jsstring list" where
  "allIps w host =
     (let ipv4Addresses = (case resolve4 w host of Inl _ \<Rightarrow> [] | Inr ips \<Rightarrow> ips);
          ipv6Addresses = (case resolve6 w host of Inl _ \<Rightarrow> [] | Inr ips \<Rightarrow> ips)
      in ipv4Addresses @ ipv6Addresses)"

definition validateUrl :: "world \<Rightarrow> jsstring \<Rightarrow> (js_error + parsed_url) \<times> effect list" where
  "validateUrl w url =
     (case new_URL w url of
        Inl error \<Rightarrow> (Inl error, [])
      | Inr parsedUrl \<Rightarrow>
          if protocol parsedUrl \<notin> set [js ''http:'', js ''https:''] then
            (Inl (Error (js ''Only HTTP/HTTPS protocols allowed'')), [])
          else
            (let error = Error (js ''Access to private IP addresses is blocked'');
                 fx = [Resolve4 (hostname parsedUrl), Resolve6 (hostname parsedUrl)]
             in if (\<exists>ip \<in> set (allIps w (hostname parsedUrl)). blocked_ip ip)
                   \<and> js_includes (message error) (js ''blocked'')
                then (Inl error, fx) else (Inr parsedUrl, fx)))"

subsection \<open>\<open>fetchExternalImage\<close> (lines 37-47 and 79-131)\<close>

definition VALID_IMAGE_TYPES :: "jsstring list" where
  "VALID_IMAGE_TYPES =
     [js ''image/jpeg'', js ''image/jpg'', js ''image/png'', js ''image/webp'', js ''image/gif'',
      js ''image/svg+xml'', js ''image/avif'', js ''image/bmp'', js ''image/tiff'']"

text \<open>The \<open>catch\<close> block of lines 123-130.\<close>

definition fetch_catch :: "js_error \<Rightarrow> js_error" where
  "fetch_catch error =
     (if name error = js ''AbortError'' then Error (js ''Request timeout'') else error)"

definition fetchExternalImage :: "world \<Rightarrow> jsstring \<Rightarrow> js_error + (bytes \<times> jsstring)" where
  "fetchExternalImage w url =
     (case fetch w url of
        Inl error \<Rightarrow> Inl (fetch_catch error)
      | Inr response \<Rightarrow>
          if \<not> ok response then
            Inl (fetch_catch (Error (js ''HTTP '' @ nat_digits (status response) @ js '': ''
                                     @ statusText response)))
          else
            (case content_type response of
               None \<Rightarrow> Inl (fetch_catch (Error (js ''Invalid content type: null'')))
             | Some contentType \<Rightarrow>
                 if contentType = []
                    \<or> \<not> (\<exists>type \<in> set VALID_IMAGE_TYPES.
                             js_includes (toLowerCase contentType) type) then
                   Inl (fetch_catch (Error (js ''Invalid content type: '' @ contentType)))
                 else if (case content_length response of
                            None \<Rightarrow> False
                          | Some contentLength \<Rightarrow>
                              contentLength \<noteq> []
                              \<and> (case parseInt contentLength of
                                     NaN \<Rightarrow> False
                                   | Num n \<Rightarrow> n > MAX_FILE_SIZE w)) then
                   Inl (fetch_catch (Error (js ''Image file too large'')))
                 else
                   (case arrayBuffer response of
                      Inl error \<Rightarrow> Inl (fetch_catch error)
                    | Inr buffer \<Rightarrow>
                        if int (length buffer) > MAX_FILE_SIZE w then
                          Inl (fetch_catch (Error (js ''Image file too large'')))
                        else Inr (buffer, contentType))))"

text \<open>The \<open>catch\<close> block of lines 186-198 of the handler.\<close>

definition fetch_failure :: "js_error \<Rightarrow> response" where
  "fetch_failure error =
     (if js_includes (message error) (js ''timeout'') then
        sendError 504 (js ''Request timeout while fetching image'')
      else if js_includes (message error) (js ''too large'') then
        sendError 413 (js ''Image file too large'')
      else if js_includes (message error) (js ''content type'') then
        sendError 415 (js ''Unsupported media type'')
      else sendError 502 (js ''Failed to fetch external image: '' @ message error))"

subsection \<open>The requested operations (lines 206 and 212-248)\<close>

text \<open>
  \<open>Object.fromEntries(operationsPrefix.split(',').map(operation => operation.split('=')))\<close>:
  an entry is the first two parts of an operation, the value \<open>None\<close> when there is no
  second part. Reading a property gives the value of the last entry with that key.
\<close>

definition entry_of :: "jsstring list \<Rightarrow> jsstring \<times> jsstring option" where
  "entry_of parts =
     (case parts of
        [] \<Rightarrow> (js ''undefined'', None)
      | k # rest \<Rightarrow> (k, case rest of [] \<Rightarrow> None | v # _ \<Rightarrow> Some v))"

definition operationsJSON_of :: "jsstring \<Rightarrow> (jsstring \<times> jsstring option) list" where
  "operationsJSON_of operationsPrefix = map (entry_of \<circ> split 0x3D) (split 0x2C operationsPrefix)"

definition property :: "(jsstring \<times> jsstring option) list \<Rightarrow> jsstring \<Rightarrow> jsstring option" where
  "property obj k = (case map_of (rev obj) k of Some (Some v) \<Rightarrow> Some v | _ \<Rightarrow> None)"

text \<open>A Number is truthy unless it is \<open>NaN\<close> or zero; an absent property is not.\<close>

definition number_truthy :: "jsnum option \<Rightarrow> bool" where
  "number_truthy x = (case x of Some (Num n) \<Rightarrow> n \<noteq> 0 | _ \<Rightarrow> False)"

definition parsed_property :: "(jsstring \<times> jsstring option) list \<Rightarrow> jsstring \<Rightarrow> jsnum option" where
  "parsed_property obj k =
     (if truthy (property obj k) then Some (parseInt (the (property obj k))) else None)"

definition resizingOptions_of :: "(jsstring \<times> jsstring option) list \<Rightarrow> resizing_options" where
  "resizingOptions_of operationsJSON =
     \<lparr>width = parsed_property operationsJSON (js ''width''),
      height = parsed_property operationsJSON (js ''height'')\<rparr>"

text \<open>The \<open>switch\<close> of lines 232-239: the content type and \<open>isLossy\<close>.\<close>

definition format_switch :: "jsstring \<Rightarrow> jsstring \<times> bool" where
  "format_switch format =
     (if format = js ''jpeg'' then (js ''image/jpeg'', True)
      else if format = js ''gif'' then (js ''image/gif'', False)
      else if format = js ''webp'' then (js ''image/webp'', True)
      else if format = js ''png'' then (js ''image/png'', False)
      else if format = js ''avif'' then (js ''image/avif'', True)
      else (js ''image/jpeg'', True))"

definition sharp_calls_of :: "(jsstring \<times> jsstring option) list \<Rightarrow> bool \<Rightarrow> sharp_calls" where
  "sharp_calls_of operationsJSON orientation =
     (let resizingOptions = resizingOptions_of operationsJSON in
        \<lparr>resize =
           (if number_truthy (width resizingOptions) \<or> number_truthy (height resizingOptions)
            then Some resizingOptions else None),
         rotate = orientation,
         toFormat =
           (if truthy (property operationsJSON (js ''format'')) then
              (let format = the (property operationsJSON (js ''format'')) in
                 if truthy (property operationsJSON (js ''quality'')) \<and> snd (format_switch format)
                 then Some (format, Some (parseInt (the (property operationsJSON (js ''quality'')))))
                 else Some (format, None))
            else None)\<rparr>)"

definition contentType_of :: "(jsstring \<times> jsstring option) list \<Rightarrow> jsstring \<Rightarrow> jsstring" where
  "contentType_of operationsJSON contentType =
     (if truthy (property operationsJSON (js ''format'')) then
        fst (format_switch (the (property operationsJSON (js ''format''))))
      else if contentType = js ''image/svg+xml'' then js ''image/png''
      else contentType)"

subsection \<open>The handler (lines 133-317)\<close>

text \<open>Lines 150-158: the URL is read back from the second part of the path.\<close>

definition decodeUrl :: "jsstring \<Rightarrow> jsstring" where
  "decodeUrl encodedUrl =
     toString_utf8 (Buffer_from_base64 (replace_char 0x5F 0x2F (replace_char 0x2D 0x2B encodedUrl)))"

text \<open>Line 141: \<open>path.split('/').filter(p => p)\<close>.\<close>

definition pathParts_of :: "jsstring \<Rightarrow> jsstring list" where
  "pathParts_of p = filter (\<lambda>part. part \<noteq> []) (split 0x2F p)"

text \<open>
  The state of an invocation once \<open>toBuffer\<close> has returned (line 254): the variables that
  the rest of the handler reads, and the calls made so far.
\<close>

record computed =
  c_encodedUrl :: jsstring
  c_operationsPrefix :: jsstring
  c_imageUrl :: jsstring
  c_contentType :: jsstring
  c_timingLog :: jsstring
  c_transformedImage :: bytes
  c_effects :: "effect list"

text \<open>
  Lines 134-254. \<open>Inl\<close> is an invocation that ends there, with what it returns and the
  calls it made.
\<close>

definition transformed :: "world \<Rightarrow> event \<Rightarrow> (outcome \<times> effect list) + computed" where
  "transformed w event =
     (case event of
        None \<Rightarrow> Inl (Response (sendError 400 (js ''Only GET method is supported'')), [])
      | Some http \<Rightarrow>
          if http_method http \<noteq> js ''GET'' then
            Inl (Response (sendError 400 (js ''Only GET method is supported'')), [])
          else
            (let pathParts = pathParts_of (path http) in
               if length pathParts < 2 \<or> pathParts ! 0 \<noteq> js ''proxy'' then
                 Inl (Response (sendError 400 (js ''Invalid request path format'')), [])
               else
                 (let encodedUrl = pathParts ! 1;
                      operationsPrefix =
                        (if 2 < length pathParts then pathParts ! 2 else js ''original'');
                      imageUrl = decodeUrl encodedUrl
                  in
                    if \<not> matches_http_url imageUrl then
                      Inl (Response (sendError 400 (js ''Failed to decode URL'')), [])
                    else
                      (case validateUrl w imageUrl of
                         (Inl error, fx) \<Rightarrow>
                           Inl (Response (sendError 403
                                  (js ''URL validation failed: '' @ message error)), fx)
                       | (Inr _, fx) \<Rightarrow>
                           (case fetchExternalImage w imageUrl of
                              Inl error \<Rightarrow>
                                Inl (Response (fetch_failure error), fx @ [Fetch imageUrl])
                            | Inr (originalImageBody, contentType) \<Rightarrow>
                                (case sharp_metadata w originalImageBody of
                                   Inl error \<Rightarrow>
                                     Inl (Unhandled error,
                                          fx @ [Fetch imageUrl, SharpMetadata originalImageBody])
                                 | Inr orientation \<Rightarrow>
                                     (let operationsJSON = operationsJSON_of operationsPrefix;
                                          calls = sharp_calls_of operationsJSON orientation;
                                          fx' = fx @ [Fetch imageUrl,
                                                      SharpMetadata originalImageBody,
                                                      Sharp originalImageBody calls]
                                      in
                                        case sharp_toBuffer w originalImageBody calls of
                                          Inl error \<Rightarrow>
                                            Inl (Response (sendError 500
                                                   (js ''Error transforming image'')), fx')
                                        | Inr transformedImage \<Rightarrow>
                                            Inr \<lparr>c_encodedUrl = encodedUrl,
                                                 c_operationsPrefix = operationsPrefix,
                                                 c_imageUrl = imageUrl,
                                                 c_contentType =
                                                   contentType_of operationsJSON contentType,
                                                 c_timingLog =
                                                   js ''img-download;dur='' @ download_dur w
                                                   @ js '',img-transform;dur=''
                                                   @ transform_dur w,
                                                 c_transformedImage = transformedImage,
                                                 c_effects = fx'\<rparr>)))))))"

text \<open>Line 257.\<close>

definition imageTooBig :: "world \<Rightarrow> computed \<Rightarrow> bool" where
  "imageTooBig w c =
     (case MAX_IMAGE_SIZE w of
        NaN \<Rightarrow> False
      | Num m \<Rightarrow> int (length (c_transformedImage c)) > m)"

text \<open>Lines 301-316: what is returned when no redirect was sent.\<close>

definition inline_response :: "world \<Rightarrow> computed \<Rightarrow> jsstring \<Rightarrow> response" where
  "inline_response w c timingLog =
     (if imageTooBig w c then sendError 413 (js ''Requested transformed image is too big'')
      else
        \<lparr>statusCode = 200, statusDescription = None,
         body = Some (toString_base64 (c_transformedImage c)),
         isBase64Encoded = Some True,
         response_headers = Some [(js ''Content-Type'', c_contentType c),
                                  (js ''Cache-Control'', TRANSFORMED_IMAGE_CACHE_TTL w),
                                  (js ''Server-Timing'', timingLog)]\<rparr>)"

definition putImageCommand :: "world \<Rightarrow> computed \<Rightarrow> put_object" where
  "putImageCommand w c =
     \<lparr>Body = c_transformedImage c,
      Bucket = the (S3_TRANSFORMED_IMAGE_BUCKET w),
      Key = c_encodedUrl c @ js ''/'' @ c_operationsPrefix c,
      ContentType = c_contentType c,
      CacheControl = TRANSFORMED_IMAGE_CACHE_TTL w,
      Metadata = [(js ''original-url-base64'', toString_base64 (Buffer_from (c_imageUrl c))),
                  (js ''transformations'', c_operationsPrefix c)]\<rparr>"

text \<open>Lines 256-316.\<close>

definition store :: "world \<Rightarrow> computed \<Rightarrow> outcome \<times> effect list" where
  "store w c =
     (if truthy (S3_TRANSFORMED_IMAGE_BUCKET w) then
        (case s3_send w (putImageCommand w c) of
           Inr _ \<Rightarrow>
             (let timingLog = c_timingLog c @ js '',img-upload;dur='' @ upload_dur w in
                if imageTooBig w c then
                  (Response
                     \<lparr>statusCode = 307, statusDescription = None, body = None,
                      isBase64Encoded = None,
                      response_headers =
                        Some [(js ''Location'',
                               js ''/proxy/'' @ c_encodedUrl c @ js ''/''
                               @ c_operationsPrefix c),
                              (js ''Cache-Control'', js ''no-store''),
                              (js ''Server-Timing'', timingLog)]\<rparr>,
                   c_effects c @ [S3Send (putImageCommand w c)])
                else
                  (Response (inline_response w c timingLog),
                   c_effects c @ [S3Send (putImageCommand w c)]))
         | Inl error \<Rightarrow>
             (Response (inline_response w c (c_timingLog c)),
              c_effects c @ [S3Send (putImageCommand w c)]))
      else (Response (inline_response w c (c_timingLog c)), c_effects c))"

definition image_handler :: "world \<Rightarrow> event \<Rightarrow> outcome \<times> effect list" where
  "image_handler w event =
     (case transformed w event of Inl ended \<Rightarrow> ended | Inr c \<Rightarrow> store w c)"

section \<open>Notions used to state the properties of the edge stage\<close>

text \<open>
  The value that the loop reads for a key, and the values of the query parameters named
  \<open>p\<close> in any letter case, in the order of \<open>Object.keys\<close>.
\<close>

definition query_value :: "(jsstring \<times> jsstring) list \<Rightarrow> jsstring \<Rightarrow> jsstring" where
  "query_value qs k = (case map_of qs k of None \<Rightarrow> [] | Some x \<Rightarrow> x)"

definition parameter_values :: "(jsstring \<times> jsstring) list \<Rightarrow> jsstring \<Rightarrow> jsstring list" where
  "parameter_values qs p =
     map (query_value qs) (filter (\<lambda>k. toLowerCase k = p) (map fst qs))"

text \<open>Of several values given for one operation, the last one that is kept counts.\<close>

definition last_kept :: "(jsstring \<Rightarrow> jsstring option) \<Rightarrow> jsstring list \<Rightarrow> jsstring option" where
  "last_kept keep vs = (case List.map_filter keep (rev vs) of [] \<Rightarrow> None | s # _ \<Rightarrow> Some s)"

text \<open>
  The rules of the specification. A width or height is kept when it parses as an integer
  \<open>n\<close> with \<open>0 < n \<le> 4000\<close>; a quality when it parses as an integer \<open>n\<close> with
  \<open>0 < n\<close>, and values above 100 become 100; everything else is dropped.
\<close>

definition kept_dimension :: "jsstring \<Rightarrow> jsstring option" where
  "kept_dimension v =
     (case parseInt v of
        NaN \<Rightarrow> None
      | Num n \<Rightarrow> if 0 < n \<and> n \<le> 4000 then Some (int_toString n) else None)"

definition kept_quality :: "jsstring \<Rightarrow> jsstring option" where
  "kept_quality v =
     (case parseInt v of
        NaN \<Rightarrow> None
      | Num n \<Rightarrow> if 0 < n then Some (int_toString (min n 100)) else None)"

text \<open>
  The format negotiated from the \<open>Accept\<close> header: \<open>avif\<close> if the header mentions it,
  else \<open>webp\<close> if it mentions that, else \<open>jpeg\<close>, also without the header.
\<close>

definition accept_header :: "request \<Rightarrow> jsstring option" where
  "accept_header request =
     (case headers request of None \<Rightarrow> None | Some hs \<Rightarrow> map_of hs (js ''accept''))"

definition negotiated_format :: "jsstring option \<Rightarrow> jsstring" where
  "negotiated_format accept =
     (case accept of
        None \<Rightarrow> js ''jpeg''
      | Some a \<Rightarrow>
          if sublist (js ''avif'') a then js ''avif''
          else if sublist (js ''webp'') a then js ''webp''
          else js ''jpeg'')"

text \<open>A format value is kept when it is one of the supported names, \<open>auto\<close> negotiated.\<close>

definition kept_format :: "request \<Rightarrow> jsstring \<Rightarrow> jsstring option" where
  "kept_format request v =
     (if toLowerCase v \<in> set SUPPORTED_FORMATS then
        Some (if toLowerCase v = js ''auto'' then negotiated_format (accept_header request)
              else toLowerCase v)
      else None)"

text \<open>
  The serialization of the specification: the operations that are present, as
  \<open>key=value\<close>, joined by commas in the order format, quality, width, height; the word
  \<open>original\<close> when there is none.
\<close>

definition canonical_suffix :: "normalized_ops \<Rightarrow> jsstring" where
  "canonical_suffix ops =
     (case List.map_filter (\<lambda>(key, x). map_option (\<lambda>v. key @ js ''='' @ v) x)
             [(js ''format'', n_format ops), (js ''quality'', n_quality ops),
              (js ''width'', n_width ops), (js ''height'', n_height ops)] of
        [] \<Rightarrow> js ''original''
      | ps \<Rightarrow> join (js '','') ps)"


section \<open>Notions used to state the properties of the origin stage\<close>

text \<open>The status codes of the error responses.\<close>

definition error_statuses :: "nat set" where
  "error_statuses = {400, 403, 413, 415, 500, 502, 504}"

text \<open>
  The error response of the specification: a body that begins \<open>{"error":"\<close> and ends
  \<open>"}\<close>, sent with \<open>Content-Type: application/json\<close> and \<open>Cache-Control: no-store\<close>.
\<close>

definition json_error_form :: "response \<Rightarrow> bool" where
  "json_error_form r =
     ((case body r of
         None \<Rightarrow> False
       | Some b \<Rightarrow> prefix (js ''{'' @ [0x22] @ js ''error'' @ [0x22] @ js '':'' @ [0x22]) b
                  \<and> suffix ([0x22] @ js ''}'') b)
      \<and> (case response_headers r of
            None \<Rightarrow> False
          | Some hs \<Rightarrow> map_of hs (js ''Content-Type'') = Some (js ''application/json'')
                      \<and> map_of hs (js ''Cache-Control'') = Some (js ''no-store'')))"

text \<open>
  The redirect of lines 286-293 and the inline response of lines 307-316, the latter with
  the timing log that it carries.
\<close>

definition redirect_response :: "world \<Rightarrow> computed \<Rightarrow> response" where
  "redirect_response w c =
     \<lparr>statusCode = 307, statusDescription = None, body = None, isBase64Encoded = None,
      response_headers =
        Some [(js ''Location'', js ''/proxy/'' @ c_encodedUrl c @ js ''/'' @ c_operationsPrefix c),
              (js ''Cache-Control'', js ''no-store''),
              (js ''Server-Timing'',
               c_timingLog c @ js '',img-upload;dur='' @ upload_dur w)]\<rparr>"

definition ok_response :: "world \<Rightarrow> computed \<Rightarrow> jsstring \<Rightarrow> response" where
  "ok_response w c timing =
     \<lparr>statusCode = 200, statusDescription = None,
      body = Some (toString_base64 (c_transformedImage c)), isBase64Encoded = Some True,
      response_headers = Some [(js ''Content-Type'', c_contentType c),
                               (js ''Cache-Control'', TRANSFORMED_IMAGE_CACHE_TTL w),
                               (js ''Server-Timing'', timing)]\<rparr>"


text \<open>Line 148: the third part of the path, or \<open>original\<close>.\<close>

definition operationsPrefix_of :: "jsstring \<Rightarrow> jsstring" where
  "operationsPrefix_of p =
     (if 2 < length (pathParts_of p) then pathParts_of p ! 2 else js ''original'')"




section \<open>The encoding as a list of six-bit values\<close>

text \<open>
  One round of \<open>base64Encode\<close> (url-rewrite, lines 44 to 56) looks up four characters of
  \<open>base64chars\<close>, at the indices \<open>bitmap >> 18 & 63\<close>, \<open>bitmap >> 12 & 63\<close>,
  \<open>bitmap >> 6 & 63\<close> and \<open>bitmap & 63\<close>. The functions below name these indices, the
  indices of a whole string and the padding that the last round appends, so that the encoder
  can be compared with the decoder of the origin stage.
\<close>

definition round_sextets :: "32 word \<Rightarrow> 32 word \<Rightarrow> 32 word \<Rightarrow> 32 word list" where
  "round_sextets a b c =
     (let bitmap = push_bit 16 a OR push_bit 8 b OR c in
        [signed_drop_bit 18 bitmap AND 63, signed_drop_bit 12 bitmap AND 63,
         signed_drop_bit 6 bitmap AND 63, bitmap AND 63])"

fun encoded_sextets :: "jsstring \<Rightarrow> 32 word list" where
  "encoded_sextets [] = []"
| "encoded_sextets [a] = take 2 (round_sextets (ucast a) 0 0)"
| "encoded_sextets [a, b] = take 3 (round_sextets (ucast a) (ucast b) 0)"
| "encoded_sextets (a # b # c # rest) =
     round_sextets (ucast a) (ucast b) (ucast c) @ encoded_sextets rest"

fun base64_padding :: "jsstring \<Rightarrow> jsstring" where
  "base64_padding [] = []"
| "base64_padding [a] = js ''==''"
| "base64_padding [a, b] = js ''=''"
| "base64_padding (a # b # c # rest) = base64_padding rest"

definition b64char :: "32 word \<Rightarrow> jschar" where
  "b64char v = base64chars ! unat v"

text \<open>
  The two substitutions on one character: \<open>+\<close> to \<open>-\<close> and \<open>/\<close> to \<open>_\<close> at the
  edge (lines 33 to 35), and back at the origin (lines 154 to 156). A position of the alphabet
  is decodable when its character, made URL-safe and made plain again, is not the padding
  character and its byte is read back by the decoder as that position.
\<close>

definition url_char :: "jschar \<Rightarrow> jschar" where
  "url_char c = (if c = 0x2B then 0x2D else if c = 0x2F then 0x5F else c)"

definition plain_char :: "jschar \<Rightarrow> jschar" where
  "plain_char e = (if e = 0x2D then 0x2B else if e = 0x5F then 0x2F else e)"

definition decodable :: "nat \<times> jschar \<Rightarrow> bool" where
  "decodable p =
     (url_char (snd p) \<noteq> 0x3D
      \<and> (ucast (plain_char (url_char (snd p))) :: 8 word) \<noteq> 0x3D
      \<and> unbase64 (ucast (plain_char (url_char (snd p)))) = Some (of_nat (fst p)))"

section \<open>Example inputs\<close>

definition plain_request :: request where
  "plain_request =
     \<lparr>uri = js ''/'', querystring = Some [(js ''url'', js ''http://a'')], headers = None\<rparr>"

definition proxied_request :: request where
  "proxied_request =
     \<lparr>uri = js ''/proxy/aHR0cDovL2E/original'', querystring = Some [], headers = None\<rparr>"

definition bare_request :: request where
  "bare_request = \<lparr>uri = js ''/'', querystring = None, headers = None\<rparr>"


definition webp_request :: request where
  "webp_request =
     \<lparr>uri = js ''/'',
      querystring = Some [(js ''url'', js ''http://a''), (js ''format'', js ''auto'')],
      headers = Some [(js ''accept'', js ''image/webp'')]\<rparr>"

definition ordered_request :: request where
  "ordered_request =
     \<lparr>uri = js ''/'',
      querystring = Some [(js ''url'', js ''http://a''), (js ''width'', js ''5''),
                          (js ''format'', js ''png'')],
      headers = None\<rparr>"

definition reordered_request :: request where
  "reordered_request =
     \<lparr>uri = js ''/img'',
      querystring = Some [(js ''format'', js ''png''), (js ''url'', js ''http://a''),
                          (js ''width'', js ''5'')],
      headers = None\<rparr>"


text \<open>
  A world in which the host resolves to a public address, the fetch returns three bytes
  of \<open>image/png\<close>, the codec returns three bytes, the store accepts every object and the
  output ceiling is two bytes; and a \<open>GET\<close> request for a path.
\<close>

definition calm_world :: world where
  "calm_world =
     \<lparr>S3_TRANSFORMED_IMAGE_BUCKET = Some (js ''bucket''),
      TRANSFORMED_IMAGE_CACHE_TTL = js ''max-age=31622400'',
      MAX_IMAGE_SIZE = Num 2,
      MAX_FILE_SIZE = 52428800,
      new_URL = (\<lambda>url. Inr \<lparr>protocol = js ''http:'', hostname = js ''a''\<rparr>),
      resolve4 = (\<lambda>host. Inr [js ''93.184.216.34'']),
      resolve6 = (\<lambda>host. Inl (Error (js ''queryAaaa ENODATA''))),
      fetch = (\<lambda>url. Inr \<lparr>ok = True, status = 200, statusText = js ''OK'',
                             content_type = Some (js ''image/png''), content_length = None,
                             arrayBuffer = Inr [1, 2, 3]\<rparr>),
      sharp_metadata = (\<lambda>buffer. Inr False),
      sharp_toBuffer = (\<lambda>buffer calls. Inr [7, 7, 7]),
      s3_send = (\<lambda>put. Inr ()),
      download_dur = js ''1'', transform_dur = js ''2'', upload_dur = js ''3''\<rparr>"

definition get :: "jsstring \<Rightarrow> event" where
  "get p = Some \<lparr>http_method = js ''GET'', path = p\<rparr>"

text \<open>
  What the handler has computed in \<open>calm_world\<close> for the path
  \<open>/proxy/aHR0cDovL2E\<close>, the encoding of \<open>http://a\<close>.
\<close>

definition calm_computed :: computed where
  "calm_computed =
     \<lparr>c_encodedUrl = js ''aHR0cDovL2E'', c_operationsPrefix = js ''original'',
      c_imageUrl = js ''http://a'', c_contentType = js ''image/png'',
      c_timingLog = js ''img-download;dur=1,img-transform;dur=2'',
      c_transformedImage = [7, 7, 7],
      c_effects = [Resolve4 (js ''a''), Resolve6 (js ''a''), Fetch (js ''http://a''),
                   SharpMetadata [1, 2, 3],
                   Sharp [1, 2, 3] \<lparr>resize = None, rotate = False, toFormat = None\<rparr>]\<rparr>"

text \<open>
  Variants of \<open>calm_world\<close>: with or without a bucket, with an output ceiling of two or
  five bytes, with a store that accepts or refuses every object.
\<close>

definition accepting_store :: "put_object \<Rightarrow> js_error + unit" where
  "accepting_store put = Inr ()"

definition failing_store :: "put_object \<Rightarrow> js_error + unit" where
  "failing_store put = Inl (Error (js ''store unavailable''))"

definition world_with ::
  "jsstring option \<Rightarrow> jsnum \<Rightarrow> (put_object \<Rightarrow> js_error + unit) \<Rightarrow> world" where
  "world_with b m s =
     calm_world\<lparr>S3_TRANSFORMED_IMAGE_BUCKET := b, MAX_IMAGE_SIZE := m, s3_send := s\<rparr>"

definition tight_world :: world where
  "tight_world = world_with (Some (js ''bucket'')) (Num 2) accepting_store"

definition roomy_world :: world where
  "roomy_world = world_with (Some (js ''bucket'')) (Num 5) accepting_store"

definition no_store_world :: world where
  "no_store_world = world_with None (Num 2) accepting_store"

definition no_store_roomy_world :: world where
  "no_store_roomy_world = world_with None (Num 5) accepting_store"

definition broken_store_world :: world where
  "broken_store_world = world_with (Some (js ''bucket'')) (Num 5) failing_store"


text \<open>A request that names the canonical path itself, with a width beyond 4000.\<close>

definition unchecked_request :: request where
  "unchecked_request =
     \<lparr>uri = js ''/proxy/aHR0cDovL2E/width=999999'', querystring = Some [], headers = None\<rparr>"






text \<open>A URL with one character outside ASCII, \<open>U+00E9\<close>, and its edge encoding.\<close>

definition accented_url :: jsstring where
  "accented_url = js ''http://'' @ [0xE9]"

definition accented_token :: jsstring where
  "accented_token = js ''aHR0cDovL-k''"

section \<open>Facts about the string functions\<close>

lemma indexOf_ge: "- 1 \<le> indexOf s pat"
  by (induction s) (auto simp: Let_def)

lemma indexOf_zero_iff: "indexOf s pat = 0 \<longleftrightarrow> prefix pat s"
proof (cases s)
  case Nil
  then show ?thesis by auto
next
  case (Cons c t)
  have "- 1 \<le> indexOf t pat" by (rule indexOf_ge)
  then show ?thesis using Cons by (auto simp: Let_def)
qed

section \<open>The edge stage: pass-through of canonical requests\<close>

text \<open>
  Claim C9. A request whose path already begins with \<open>/proxy/\<close> is returned unchanged by the
  URL rewriter, and whatever request the rewriter returns is a fixed point of the rewriter:
  normalizing an already normalized request changes nothing.
\<close>

theorem canonical_request_unchanged:
  "(prefix (js ''/proxy/'') (uri request) \<longrightarrow> rewrite_handler request = Forward request)
   \<and> (\<forall>r. rewrite_handler request = Forward r \<longrightarrow> rewrite_handler r = Forward r)"
proof (intro conjI allI impI)
  assume "prefix (js ''/proxy/'') (uri request)"
  then show "rewrite_handler request = Forward request"
    by (simp add: rewrite_handler_def indexOf_zero_iff)
next
  fix r
  assume h: "rewrite_handler request = Forward r"
  have "prefix (js ''/proxy/'') (uri r)"
    using h
    by (auto simp: rewrite_handler_def indexOf_zero_iff
             split: if_splits option.splits)
  then show "rewrite_handler r = Forward r"
    by (simp add: rewrite_handler_def indexOf_zero_iff)
qed

theorem canonical_request_unchanged_witness:
  "prefix (js ''/proxy/'') (uri proxied_request)
   \<and> rewrite_handler proxied_request = Forward proxied_request
   \<and> rewrite_handler plain_request = Forward proxied_request"
proof -
  have p: "prefix (js ''/proxy/'') (uri proxied_request)"
    by (simp add: proxied_request_def js_def)
  have e: "rewrite_handler plain_request = Forward proxied_request"
    by code_simp
  from canonical_request_unchanged [of plain_request] p e show ?thesis by blast
qed

section \<open>The edge stage: the loop over the query parameters\<close>

lemma indexOf_found_iff: "indexOf s pat \<noteq> - 1 \<longleftrightarrow> sublist pat s"
proof (induction s)
  case Nil
  then show ?case by auto
next
  case (Cons c t)
  have ge: "- 1 \<le> indexOf t pat" by (rule indexOf_ge)
  show ?case
  proof (cases "prefix pat (c # t)")
    case True
    then show ?thesis by (simp add: sublist_Cons_right)
  next
    case False
    have "indexOf (c # t) pat \<noteq> - 1 \<longleftrightarrow> indexOf t pat \<noteq> - 1"
      using False ge by (auto simp: Let_def)
    then show ?thesis using Cons.IH False by (simp add: sublist_Cons_right)
  qed
qed

lemma auto_format_negotiated: "auto_format request = negotiated_format (accept_header request)"
  by (simp add: auto_format_def negotiated_format_def accept_header_def indexOf_found_iff
           split: option.splits)

lemma parseInt_empty: "parseInt [] = NaN"
  by (simp add: parseInt_def js_def)

lemma literals_distinct:
  "js ''format'' \<noteq> js ''width''" "js ''format'' \<noteq> js ''height''"
  "js ''format'' \<noteq> js ''quality''" "js ''width'' \<noteq> js ''height''"
  "js ''width'' \<noteq> js ''quality''" "js ''height'' \<noteq> js ''quality''"
  "toLowerCase (js ''url'') \<noteq> js ''format''" "toLowerCase (js ''url'') \<noteq> js ''width''"
  "toLowerCase (js ''url'') \<noteq> js ''height''" "toLowerCase (js ''url'') \<noteq> js ''quality''"
  by (simp_all add: js_def toLowerCase_def lower_unit_def)

lemma lower_empty_unsupported: "toLowerCase [] \<notin> set SUPPORTED_FORMATS"
  by (simp add: SUPPORTED_FORMATS_def toLowerCase_def js_def)

text \<open>What one round of the loop does to each property of \<open>normalizedOperations\<close>.\<close>

lemma width_step:
  "n_width (loop_body request qs k ops) =
     (if toLowerCase k = js ''width'' then
        (case kept_dimension (query_value qs k) of None \<Rightarrow> n_width ops | Some s \<Rightarrow> Some s)
      else n_width ops)"
  using literals_distinct
  by (auto simp: loop_body_def Let_def kept_dimension_def query_value_def parseInt_empty
           split: jsnum.splits option.splits)

lemma height_step:
  "n_height (loop_body request qs k ops) =
     (if toLowerCase k = js ''height'' then
        (case kept_dimension (query_value qs k) of None \<Rightarrow> n_height ops | Some s \<Rightarrow> Some s)
      else n_height ops)"
  using literals_distinct
  by (auto simp: loop_body_def Let_def kept_dimension_def query_value_def parseInt_empty
           split: jsnum.splits option.splits)

lemma quality_step:
  "n_quality (loop_body request qs k ops) =
     (if toLowerCase k = js ''quality'' then
        (case kept_quality (query_value qs k) of None \<Rightarrow> n_quality ops | Some s \<Rightarrow> Some s)
      else n_quality ops)"
  using literals_distinct
  by (auto simp: loop_body_def Let_def kept_quality_def query_value_def parseInt_empty min_def
           split: jsnum.splits option.splits)

lemma format_step:
  "n_format (loop_body request qs k ops) =
     (if toLowerCase k = js ''format'' then
        (case kept_format request (query_value qs k) of None \<Rightarrow> n_format ops | Some s \<Rightarrow> Some s)
      else n_format ops)"
  using literals_distinct lower_empty_unsupported
  by (auto simp: loop_body_def Let_def kept_format_def query_value_def auto_format_negotiated
           split: jsnum.splits option.splits)

lemma last_kept_snoc:
  "last_kept keep (vs @ [v]) = (case keep v of None \<Rightarrow> last_kept keep vs | Some s \<Rightarrow> Some s)"
  by (simp add: last_kept_def List.map_filter_simps split: option.splits)

lemma last_kept_Some_last:
  "vs \<noteq> [] \<Longrightarrow> keep (last vs) = Some s \<Longrightarrow> last_kept keep vs = Some s"
  by (cases vs rule: rev_cases) (simp_all add: last_kept_snoc)

lemma last_kept_SomeD: "last_kept keep vs = Some s \<Longrightarrow> \<exists>v \<in> set vs. keep v = Some s"
proof (induction vs rule: rev_induct)
  case Nil
  then show ?case by (simp add: last_kept_def List.map_filter_simps)
next
  case (snoc v vs)
  then show ?case by (auto simp: last_kept_snoc split: option.splits)
qed

text \<open>
  A property that each round either overwrites with the value kept for the key or leaves
  alone ends up with the last value kept.
\<close>

lemma field_fold:
  assumes step: "\<And>k ops. fld (f k ops) =
     (if toLowerCase k = p then (case keep (val k) of None \<Rightarrow> fld ops | Some s \<Rightarrow> Some s)
      else fld ops)"
  shows "fld (fold f ks ops) =
     (case last_kept keep (map val (filter (\<lambda>k. toLowerCase k = p) ks)) of
        None \<Rightarrow> fld ops | Some s \<Rightarrow> Some s)"
proof (induction ks rule: rev_induct)
  case Nil
  then show ?case by (simp add: last_kept_def List.map_filter_simps)
next
  case (snoc k ks)
  then show ?case
    by (simp add: step last_kept_snoc split: option.splits)
qed

lemma effective_width:
  "n_width (normalize_operations request qs)
     = last_kept kept_dimension (parameter_values qs (js ''width''))"
  unfolding normalize_operations_def parameter_values_def
  using field_fold [where fld = n_width and f = "loop_body request qs" and p = "js ''width''"
      and keep = kept_dimension and val = "query_value qs" and ks = "map fst qs"
      and ops = no_operations, OF width_step]
  by (simp add: no_operations_def split: option.splits)

lemma effective_height:
  "n_height (normalize_operations request qs)
     = last_kept kept_dimension (parameter_values qs (js ''height''))"
  unfolding normalize_operations_def parameter_values_def
  using field_fold [where fld = n_height and f = "loop_body request qs" and p = "js ''height''"
      and keep = kept_dimension and val = "query_value qs" and ks = "map fst qs"
      and ops = no_operations, OF height_step]
  by (simp add: no_operations_def split: option.splits)

lemma effective_quality:
  "n_quality (normalize_operations request qs)
     = last_kept kept_quality (parameter_values qs (js ''quality''))"
  unfolding normalize_operations_def parameter_values_def
  using field_fold [where fld = n_quality and f = "loop_body request qs" and p = "js ''quality''"
      and keep = kept_quality and val = "query_value qs" and ks = "map fst qs"
      and ops = no_operations, OF quality_step]
  by (simp add: no_operations_def split: option.splits)

lemma effective_format:
  "n_format (normalize_operations request qs)
     = last_kept (kept_format request) (parameter_values qs (js ''format''))"
  unfolding normalize_operations_def parameter_values_def
  using field_fold [where fld = n_format and f = "loop_body request qs" and p = "js ''format''"
      and keep = "kept_format request" and val = "query_value qs" and ks = "map fst qs"
      and ops = no_operations, OF format_step]
  by (simp add: no_operations_def split: option.splits)


section \<open>The edge stage: bounds on width, height and quality\<close>




section \<open>The edge stage: negotiation of the format\<close>

lemma negotiated_not_auto: "negotiated_format a \<noteq> js ''auto''"
  by (simp add: negotiated_format_def js_def split: option.splits)

lemma kept_format_not_auto: "kept_format request v \<noteq> Some (js ''auto'')"
  using negotiated_not_auto [of "accept_header request"]
  by (auto simp: kept_format_def)

lemma nat_digits_nonempty: "nat_digits n \<noteq> []"
  by (subst nat_digits.simps) simp

lemma int_toString_nonempty: "int_toString n \<noteq> []"
  by (simp add: int_toString_def nat_digits_nonempty js_def)

lemma kept_dimension_nonempty: "kept_dimension v \<noteq> Some []"
  by (auto simp: kept_dimension_def int_toString_nonempty split: jsnum.splits)

lemma kept_quality_nonempty: "kept_quality v \<noteq> Some []"
  by (auto simp: kept_quality_def int_toString_nonempty split: jsnum.splits)

lemma negotiated_nonempty: "negotiated_format a \<noteq> []"
  by (simp add: negotiated_format_def js_def split: option.splits)

lemma kept_format_nonempty: "kept_format request v \<noteq> Some []"
  using negotiated_nonempty [of "accept_header request"]
  by (auto simp: kept_format_def SUPPORTED_FORMATS_def js_def)

lemma effective_fields_nonempty:
  "n_format (normalize_operations request qs) \<noteq> Some []"
  "n_quality (normalize_operations request qs) \<noteq> Some []"
  "n_width (normalize_operations request qs) \<noteq> Some []"
  "n_height (normalize_operations request qs) \<noteq> Some []"
  using kept_format_nonempty kept_quality_nonempty kept_dimension_nonempty
  by (auto simp: effective_format effective_quality effective_width effective_height
           dest!: last_kept_SomeD)

lemma join_prefix: "prefix x (join sep (x # xs))"
  by (cases xs) simp_all

lemma suffix_starts_with_format:
  assumes "n_format ops = Some f" "f \<noteq> []"
  shows "prefix (js ''format='' @ f) (operationsSuffix ops)"
proof -
  have "ops \<noteq> no_operations" using assms by (auto simp: no_operations_def)
  then show ?thesis
    using assms by (simp add: operationsSuffix_def push_if_def truthy_def join_prefix)
qed

lemma handler_forward:
  assumes "\<not> prefix (js ''/proxy/'') (uri request)" "querystring request = Some qs"
    "map_of qs (js ''url'') = Some u" "u \<noteq> []" "matches_http_url u"
  shows "rewrite_handler request =
     Forward (request\<lparr>uri := js ''/proxy/'' @ encodeUrl u @ js ''/''
                             @ operationsSuffix (normalize_operations request qs),
                      querystring := Some []\<rparr>)"
  using assms by (simp add: rewrite_handler_def indexOf_zero_iff)

text \<open>
  Claim C7. For a request whose format parameter is \<open>auto\<close>, the normalizer takes the format
  from the \<open>Accept\<close> header: \<open>avif\<close> if the value of the header contains \<open>avif\<close>, else
  \<open>webp\<close> if it contains \<open>webp\<close>, else \<open>jpeg\<close>, also when there is no such header. The
  canonical path then carries \<open>format=\<close> with that format, and the operation set never
  holds the word \<open>auto\<close>.
\<close>

theorem auto_format_resolved_from_accept:
  "auto_format request = negotiated_format (accept_header request)
   \<and> n_format (normalize_operations request qs) \<noteq> Some (js ''auto'')
   \<and> (parameter_values qs (js ''format'') \<noteq> []
        \<and> toLowerCase (last (parameter_values qs (js ''format''))) = js ''auto''
      \<longrightarrow> n_format (normalize_operations request qs)
            = Some (negotiated_format (accept_header request))
          \<and> (\<not> prefix (js ''/proxy/'') (uri request) \<and> querystring request = Some qs
              \<and> map_of qs (js ''url'') = Some u \<and> u \<noteq> [] \<and> matches_http_url u
             \<longrightarrow> (\<exists>r. rewrite_handler request = Forward r
                    \<and> prefix (js ''/proxy/'' @ encodeUrl u @ js ''/format=''
                               @ negotiated_format (accept_header request)) (uri r))))"
proof (intro conjI impI)
  show "auto_format request = negotiated_format (accept_header request)"
    by (rule auto_format_negotiated)
  show "n_format (normalize_operations request qs) \<noteq> Some (js ''auto'')"
    using kept_format_not_auto [of request]
    by (auto simp: effective_format dest!: last_kept_SomeD)
next
  assume h: "parameter_values qs (js ''format'') \<noteq> []
             \<and> toLowerCase (last (parameter_values qs (js ''format''))) = js ''auto''"
  have "kept_format request (last (parameter_values qs (js ''format'')))
          = Some (negotiated_format (accept_header request))"
    using h by (simp add: kept_format_def SUPPORTED_FORMATS_def)
  then show f: "n_format (normalize_operations request qs)
          = Some (negotiated_format (accept_header request))"
    using h by (simp add: effective_format last_kept_Some_last)
  assume g: "\<not> prefix (js ''/proxy/'') (uri request) \<and> querystring request = Some qs
              \<and> map_of qs (js ''url'') = Some u \<and> u \<noteq> [] \<and> matches_http_url u"
  have p: "prefix (js ''format='' @ negotiated_format (accept_header request))
             (operationsSuffix (normalize_operations request qs))"
    using f negotiated_nonempty by (rule suffix_starts_with_format)
  show "\<exists>r. rewrite_handler request = Forward r
          \<and> prefix (js ''/proxy/'' @ encodeUrl u @ js ''/format=''
                     @ negotiated_format (accept_header request)) (uri r)"
    using g p by (simp add: handler_forward js_def)
qed

theorem auto_format_resolved_from_accept_witness:
  "parameter_values (the (querystring webp_request)) (js ''format'') \<noteq> []
   \<and> toLowerCase (last (parameter_values (the (querystring webp_request)) (js ''format'')))
       = js ''auto''
   \<and> \<not> prefix (js ''/proxy/'') (uri webp_request)
   \<and> map_of (the (querystring webp_request)) (js ''url'') = Some (js ''http://a'')
   \<and> matches_http_url (js ''http://a'')
   \<and> negotiated_format (accept_header webp_request) = js ''webp''
   \<and> n_format (normalize_operations webp_request (the (querystring webp_request)))
       = Some (js ''webp'')
   \<and> (\<exists>r. rewrite_handler webp_request = Forward r
          \<and> prefix (js ''/proxy/aHR0cDovL2E/format=webp'') (uri r))"
proof -
  let ?qs = "[(js ''url'', js ''http://a''), (js ''format'', js ''auto'')]"
  have s: "querystring webp_request = Some ?qs" "the (querystring webp_request) = ?qs"
    by (simp_all add: webp_request_def)
  have a: "parameter_values ?qs (js ''format'') \<noteq> []"
    by code_simp
  have b: "toLowerCase (last (parameter_values ?qs (js ''format''))) = js ''auto''"
    by code_simp
  have c: "\<not> prefix (js ''/proxy/'') (uri webp_request)"
    by (simp add: webp_request_def js_def)
  have d: "map_of ?qs (js ''url'') = Some (js ''http://a'')"
    by simp
  have e: "matches_http_url (js ''http://a'')"
    by code_simp
  have ne: "js ''http://a'' \<noteq> []"
    by (simp add: js_def)
  have n: "negotiated_format (accept_header webp_request) = js ''webp''"
    by code_simp
  have enc: "js ''/proxy/'' @ encodeUrl (js ''http://a'') @ js ''/format='' @ js ''webp''
               = js ''/proxy/aHR0cDovL2E/format=webp''"
    by code_simp
  from auto_format_resolved_from_accept [of webp_request ?qs "js ''http://a''"]
    a b c d e ne s
  have "n_format (normalize_operations webp_request ?qs)
          = Some (negotiated_format (accept_header webp_request))
        \<and> (\<exists>r. rewrite_handler webp_request = Forward r
               \<and> prefix (js ''/proxy/'' @ encodeUrl (js ''http://a'') @ js ''/format=''
                          @ negotiated_format (accept_header webp_request)) (uri r))"
    by blast
  then show ?thesis
    using a b c d e n enc s by simp
qed

section \<open>The edge stage: one canonical path for one operation set\<close>

lemma operationsSuffix_canonical:
  assumes "n_format ops \<noteq> Some []" "n_quality ops \<noteq> Some []"
    "n_width ops \<noteq> Some []" "n_height ops \<noteq> Some []"
  shows "operationsSuffix ops = canonical_suffix ops"
proof (cases ops)
  case (fields f q w h)
  then show ?thesis
    using assms
    by (cases f; cases q; cases w; cases h)
       (simp_all add: operationsSuffix_def canonical_suffix_def no_operations_def push_if_def
          truthy_def List.map_filter_simps js_def)
qed

lemma filter_at_most_one:
  "distinct (map f ks) \<Longrightarrow> length (filter (\<lambda>k. f k = p) ks) \<le> 1"
proof (induction ks)
  case Nil
  then show ?case by simp
next
  case (Cons k ks)
  show ?case
  proof (cases "f k = p")
    case True
    have "f k \<notin> f ` set ks"
      using Cons.prems by simp
    then have "\<forall>x \<in> set ks. f x \<noteq> p"
      using True by (metis imageI)
    then have "filter (\<lambda>k. f k = p) ks = []"
      by (simp add: filter_empty_conv)
    then show ?thesis using True by simp
  next
    case False
    then show ?thesis using Cons by simp
  qed
qed

lemma short_lists_equal:
  assumes "mset xs = mset ys" "length xs \<le> 1"
  shows "xs = ys"
proof (cases xs)
  case Nil
  then show ?thesis using assms by simp
next
  case (Cons x xs')
  then have "xs = [x]" using assms by simp
  then have "mset ys = {#x#}" using assms by simp
  then have "ys = [x]" by (simp add: mset_single_iff_right)
  then show ?thesis using \<open>xs = [x]\<close> by simp
qed

lemma parameter_values_permuted:
  assumes m: "mset qs1 = mset qs2" and d: "distinct (map fst qs1)"
    and i: "inj_on toLowerCase (fst ` set qs1)"
  shows "parameter_values qs1 p = parameter_values qs2 p"
proof -
  have mk: "mset (map fst qs1) = mset (map fst qs2)"
    using m by (metis mset_map)
  have d2: "distinct (map fst qs2)"
    using mk d by (metis mset_eq_imp_distinct_iff)
  have "set qs1 = set qs2" using m by (metis mset_eq_setD)
  then have mo: "map_of qs1 = map_of qs2"
    using d d2 by (simp add: map_of_inject_set)
  have "distinct (map toLowerCase (map fst qs1))"
    using d i by (subst distinct_map) simp
  then have "length (filter (\<lambda>k. toLowerCase k = p) (map fst qs1)) \<le> 1"
    by (rule filter_at_most_one)
  moreover have "mset (filter (\<lambda>k. toLowerCase k = p) (map fst qs1))
                 = mset (filter (\<lambda>k. toLowerCase k = p) (map fst qs2))"
    using mk by (metis mset_filter)
  ultimately have "filter (\<lambda>k. toLowerCase k = p) (map fst qs1)
                   = filter (\<lambda>k. toLowerCase k = p) (map fst qs2)"
    by (rule short_lists_equal [rotated])
  moreover have "query_value qs1 = query_value qs2"
    using mo by (simp add: query_value_def fun_eq_iff)
  ultimately show ?thesis by (simp add: parameter_values_def)
qed

lemma kept_format_headers: "headers r1 = headers r2 \<Longrightarrow> kept_format r1 = kept_format r2"
  by (simp add: kept_format_def accept_header_def fun_eq_iff)

lemma normalize_operations_permuted:
  assumes "mset qs1 = mset qs2" "distinct (map fst qs1)"
    "inj_on toLowerCase (fst ` set qs1)" "headers r1 = headers r2"
  shows "normalize_operations r1 qs1 = normalize_operations r2 qs2"
proof -
  have p: "\<And>p. parameter_values qs1 p = parameter_values qs2 p"
    using assms(1-3) by (rule parameter_values_permuted)
  show ?thesis
    by (rule normalized_ops.equality)
       (simp_all add: effective_format effective_quality effective_width effective_height p
          kept_format_headers [OF assms(4)])
qed

text \<open>
  Claim C1. Two requests with the same \<open>url\<close> and the same effective operation set get the
  same canonical path, byte for byte: \<open>/proxy/\<close>, the encoded URL, a slash, and the
  operations as \<open>key=value\<close> joined by commas in the order format, quality, width, height,
  or the word \<open>original\<close> when no operation survived. The order of the query parameters
  does not matter: a query string with the same entries in another order (no two keys
  naming one operation in different letter case) gives the same operation set.
\<close>

theorem canonical_path_deterministic:
  "(\<not> prefix (js ''/proxy/'') (uri r1) \<and> \<not> prefix (js ''/proxy/'') (uri r2)
     \<and> querystring r1 = Some qs1 \<and> querystring r2 = Some qs2
     \<and> map_of qs1 (js ''url'') = Some u \<and> map_of qs2 (js ''url'') = Some u
     \<and> u \<noteq> [] \<and> matches_http_url u
     \<and> normalize_operations r1 qs1 = normalize_operations r2 qs2
    \<longrightarrow> (\<exists>r1' r2'. rewrite_handler r1 = Forward r1' \<and> rewrite_handler r2 = Forward r2'
           \<and> uri r1' = uri r2'
           \<and> uri r1' = js ''/proxy/'' @ encodeUrl u @ js ''/''
                        @ canonical_suffix (normalize_operations r1 qs1)))
   \<and> (mset qs1 = mset qs2 \<and> distinct (map fst qs1)
       \<and> inj_on toLowerCase (fst ` set qs1) \<and> headers r1 = headers r2
      \<longrightarrow> normalize_operations r1 qs1 = normalize_operations r2 qs2)"
proof (intro conjI impI)
  assume h: "\<not> prefix (js ''/proxy/'') (uri r1) \<and> \<not> prefix (js ''/proxy/'') (uri r2)
     \<and> querystring r1 = Some qs1 \<and> querystring r2 = Some qs2
     \<and> map_of qs1 (js ''url'') = Some u \<and> map_of qs2 (js ''url'') = Some u
     \<and> u \<noteq> [] \<and> matches_http_url u
     \<and> normalize_operations r1 qs1 = normalize_operations r2 qs2"
  have s: "operationsSuffix (normalize_operations r1 qs1)
             = canonical_suffix (normalize_operations r1 qs1)"
    by (rule operationsSuffix_canonical) (rule effective_fields_nonempty)+
  have 1: "rewrite_handler r1 =
     Forward (r1\<lparr>uri := js ''/proxy/'' @ encodeUrl u @ js ''/''
                        @ operationsSuffix (normalize_operations r1 qs1),
                 querystring := Some []\<rparr>)"
    using h by (intro handler_forward) simp_all
  have 2: "rewrite_handler r2 =
     Forward (r2\<lparr>uri := js ''/proxy/'' @ encodeUrl u @ js ''/''
                        @ operationsSuffix (normalize_operations r2 qs2),
                 querystring := Some []\<rparr>)"
    using h by (intro handler_forward) simp_all
  show "\<exists>r1' r2'. rewrite_handler r1 = Forward r1' \<and> rewrite_handler r2 = Forward r2'
           \<and> uri r1' = uri r2'
           \<and> uri r1' = js ''/proxy/'' @ encodeUrl u @ js ''/''
                        @ canonical_suffix (normalize_operations r1 qs1)"
    using h s by (simp add: 1 2)
next
  assume "mset qs1 = mset qs2 \<and> distinct (map fst qs1)
       \<and> inj_on toLowerCase (fst ` set qs1) \<and> headers r1 = headers r2"
  then show "normalize_operations r1 qs1 = normalize_operations r2 qs2"
    by (intro normalize_operations_permuted) simp_all
qed

theorem canonical_path_deterministic_witness:
  "mset (the (querystring ordered_request)) = mset (the (querystring reordered_request))
   \<and> distinct (map fst (the (querystring ordered_request)))
   \<and> inj_on toLowerCase (fst ` set (the (querystring ordered_request)))
   \<and> headers ordered_request = headers reordered_request
   \<and> (\<exists>r1' r2'. rewrite_handler ordered_request = Forward r1'
          \<and> rewrite_handler reordered_request = Forward r2'
          \<and> uri r1' = uri r2'
          \<and> uri r1' = js ''/proxy/aHR0cDovL2E/format=png,width=5'')"
proof -
  let ?qs1 = "[(js ''url'', js ''http://a''), (js ''width'', js ''5''),
               (js ''format'', js ''png'')]"
  let ?qs2 = "[(js ''format'', js ''png''), (js ''url'', js ''http://a''),
               (js ''width'', js ''5'')]"
  have q: "querystring ordered_request = Some ?qs1" "querystring reordered_request = Some ?qs2"
    by (simp_all add: ordered_request_def reordered_request_def)
  have m: "mset ?qs1 = mset ?qs2"
    by simp
  have d: "distinct (map fst ?qs1)"
    by (simp add: js_def)
  have i: "inj_on toLowerCase (fst ` set ?qs1)"
    by (simp add: js_def toLowerCase_def lower_unit_def)
  have h: "headers ordered_request = headers reordered_request"
    by (simp add: ordered_request_def reordered_request_def)
  have p: "\<not> prefix (js ''/proxy/'') (uri ordered_request)"
    "\<not> prefix (js ''/proxy/'') (uri reordered_request)"
    by (simp_all add: ordered_request_def reordered_request_def js_def)
  have u: "map_of ?qs1 (js ''url'') = Some (js ''http://a'')"
    "map_of ?qs2 (js ''url'') = Some (js ''http://a'')"
    by (simp_all add: js_def)
  have e: "matches_http_url (js ''http://a'')"
    by code_simp
  have ne: "js ''http://a'' \<noteq> []"
    by (simp add: js_def)
  have c: "js ''/proxy/'' @ encodeUrl (js ''http://a'') @ js ''/''
             @ canonical_suffix (normalize_operations ordered_request ?qs1)
           = js ''/proxy/aHR0cDovL2E/format=png,width=5''"
    by code_simp
  note t = canonical_path_deterministic
             [of ordered_request reordered_request ?qs1 ?qs2 "js ''http://a''"]
  have n: "normalize_operations ordered_request ?qs1
             = normalize_operations reordered_request ?qs2"
    using t m d i h by blast
  have "\<exists>r1' r2'. rewrite_handler ordered_request = Forward r1'
          \<and> rewrite_handler reordered_request = Forward r2'
          \<and> uri r1' = uri r2'
          \<and> uri r1' = js ''/proxy/'' @ encodeUrl (js ''http://a'') @ js ''/''
               @ canonical_suffix (normalize_operations ordered_request ?qs1)"
    using t p q u e ne n by blast
  then show ?thesis
    using m d i h q c by simp
qed

section \<open>The origin stage: the shape of an invocation\<close>

lemma fetch_failure_form:
  "\<exists>code msg. fetch_failure error = sendError code msg \<and> code \<in> {413, 415, 502, 504}"
  by (auto simp: fetch_failure_def)

lemma validateUrl_effects:
  "validateUrl w url = (res, fx) \<Longrightarrow>
     fx = [] \<or> (\<exists>host. fx = [Resolve4 host, Resolve6 host])"
  by (auto simp: validateUrl_def Let_def split: sum.splits if_splits)

lemma transformed_ended:
  assumes "transformed w event = Inl (Response r, fx)"
  shows "\<exists>code msg. r = sendError code msg \<and> code \<in> {400, 403, 413, 415, 500, 502, 504}"
  using assms fetch_failure_form
  unfolding transformed_def Let_def
  by (auto split: option.splits if_splits sum.splits prod.splits) blast+

lemma store_response:
  assumes "store w c = (Response r, fx)"
  shows "statusCode r = 200 \<or> statusCode r = 307
         \<or> r = sendError 413 (js ''Requested transformed image is too big'')"
  using assms
  by (auto simp: store_def Let_def inline_response_def split: sum.splits if_splits)

lemma transformed_computed:
  assumes "transformed w event = Inr c"
  shows "\<exists>http. event = Some http \<and> http_method http = js ''GET''
           \<and> 2 \<le> length (pathParts_of (path http))
           \<and> pathParts_of (path http) ! 0 = js ''proxy''
           \<and> c_encodedUrl c = pathParts_of (path http) ! 1
           \<and> c_operationsPrefix c =
               (if 2 < length (pathParts_of (path http)) then pathParts_of (path http) ! 2
                else js ''original'')
           \<and> c_imageUrl c = decodeUrl (c_encodedUrl c)
           \<and> matches_http_url (c_imageUrl c)"
  using assms
  unfolding transformed_def Let_def
  by (auto split: option.splits if_splits sum.splits prod.splits)

lemma transformed_effects:
  assumes "transformed w event = Inr c"
  shows "\<exists>host buffer orientation.
           c_effects c = [Resolve4 host, Resolve6 host, Fetch (c_imageUrl c),
                          SharpMetadata buffer,
                          Sharp buffer (sharp_calls_of (operationsJSON_of (c_operationsPrefix c))
                                          orientation)]"
  using assms
  unfolding transformed_def Let_def
  by (auto simp: validateUrl_def Let_def split: option.splits if_splits sum.splits prod.splits)

lemma sendError_json: "json_error_form (sendError code msg)"
  by (simp add: json_error_form_def sendError_def JSON_stringify_error_def QuoteJSONString_def
        js_def suffix_def)

lemma handler_error_form:
  assumes "image_handler w event = (Response r, fx)" "statusCode r \<noteq> 200" "statusCode r \<noteq> 307"
  shows "\<exists>code msg. r = sendError code msg \<and> code \<in> error_statuses"
proof (cases "transformed w event")
  case (Inl ended)
  then have "transformed w event = Inl (Response r, fx)"
    using assms(1) by (simp add: image_handler_def)
  then show ?thesis
    using transformed_ended by (simp add: error_statuses_def)
next
  case (Inr c)
  then have "store w c = (Response r, fx)"
    using assms(1) by (simp add: image_handler_def)
  then show ?thesis
    using store_response [of w c r fx] assms(2,3) by (auto simp: error_statuses_def)
qed

lemma edge_error_form:
  "rewrite_handler request = Respond e \<Longrightarrow> e = missing_url \<or> e = invalid_url"
  by (auto simp: rewrite_handler_def split: if_splits option.splits)

lemma transformed_no_put:
  assumes "transformed w event = Inr c"
  shows "S3Send put \<notin> set (c_effects c)"
  using transformed_effects [OF assms] by auto

text \<open>The handler in the example worlds.\<close>

lemma pathParts_example:
  "pathParts_of (js ''/proxy/aHR0cDovL2E'') = [js ''proxy'', js ''aHR0cDovL2E'']"
  by (simp add: pathParts_of_def js_def)

lemma decodeUrl_example: "decodeUrl (js ''aHR0cDovL2E'') = js ''http://a''"
  by (simp add: decodeUrl_def replace_char_def Buffer_from_base64_def unbase64_def
        toString_utf8_def start_byte_def utf16_units_def js_def)

text \<open>
  The decoder looks at the low byte of a code unit only: \<open>U+0161\<close> is read as \<open>a\<close>
  and \<open>U+013D\<close> as the padding character, which ends the decoding.
\<close>

lemma decodeUrl_low_byte: "decodeUrl ([0x0161] @ js ''HR0cDovL2E'') = js ''http://a''"
  by (simp add: decodeUrl_def replace_char_def Buffer_from_base64_def unbase64_def
        toString_utf8_def start_byte_def utf16_units_def js_def)

lemma decodeUrl_low_byte_padding:
  "decodeUrl (js ''aHR0cDovL2E'' @ [0x013D] @ js ''aHR0'') = js ''http://a''"
  by (simp add: decodeUrl_def replace_char_def Buffer_from_base64_def unbase64_def
        toString_utf8_def start_byte_def utf16_units_def js_def)

lemma matches_example: "matches_http_url (js ''http://a'')"
  by (simp add: matches_http_url_def starts_with_ci_def toLowerCase_def lower_unit_def
        LineTerminator_def js_def)

lemma public_address_passes: "\<not> blocked_ip (js ''93.184.216.34'')"
  by (simp add: blocked_ip_def BLOCKED_IP_RANGES_def range_172_def prefix_ci_def
        toLowerCase_def lower_unit_def js_def)

lemma validate_example:
  "new_URL w (js ''http://a'') = Inr \<lparr>protocol = js ''http:'', hostname = js ''a''\<rparr> \<Longrightarrow>
   resolve4 w (js ''a'') = Inr [js ''93.184.216.34''] \<Longrightarrow>
   resolve6 w (js ''a'') = Inl e \<Longrightarrow>
   validateUrl w (js ''http://a'')
     = (Inr \<lparr>protocol = js ''http:'', hostname = js ''a''\<rparr>,
        [Resolve4 (js ''a''), Resolve6 (js ''a'')])"
  using public_address_passes by (simp add: validateUrl_def allIps_def Let_def)

lemma png_is_valid:
  "\<exists>type \<in> set VALID_IMAGE_TYPES. js_includes (toLowerCase (js ''image/png'')) type"
  by (simp add: VALID_IMAGE_TYPES_def js_includes_def toLowerCase_def lower_unit_def js_def)

lemma fetch_example:
  "fetch w (js ''http://a'')
     = Inr \<lparr>ok = True, status = 200, statusText = js ''OK'',
            content_type = Some (js ''image/png''), content_length = None,
            arrayBuffer = Inr [1, 2, 3]\<rparr> \<Longrightarrow>
   MAX_FILE_SIZE w = 52428800 \<Longrightarrow>
   fetchExternalImage w (js ''http://a'') = Inr ([1, 2, 3], js ''image/png'')"
  using png_is_valid by (simp add: fetchExternalImage_def) (simp add: js_def)

lemma operations_example:
  "sharp_calls_of (operationsJSON_of (js ''original'')) False
     = \<lparr>resize = None, rotate = False, toFormat = None\<rparr>"
  "contentType_of (operationsJSON_of (js ''original'')) (js ''image/png'') = js ''image/png''"
  by (simp_all add: sharp_calls_of_def contentType_of_def operationsJSON_of_def entry_of_def
        resizingOptions_of_def parsed_property_def property_def truthy_def number_truthy_def
        js_def)

lemma transformed_success:
  assumes "pathParts_of p = js ''proxy'' # enc # rest"
    "ops = (case rest of [] \<Rightarrow> js ''original'' | x # _ \<Rightarrow> x)"
    "matches_http_url (decodeUrl enc)"
    "validateUrl w (decodeUrl enc) = (Inr pu, fx)"
    "fetchExternalImage w (decodeUrl enc) = Inr (buf, ct)"
    "sharp_metadata w buf = Inr orientation"
    "sharp_toBuffer w buf (sharp_calls_of (operationsJSON_of ops) orientation) = Inr img"
  shows "transformed w (get p) =
     Inr \<lparr>c_encodedUrl = enc, c_operationsPrefix = ops, c_imageUrl = decodeUrl enc,
          c_contentType = contentType_of (operationsJSON_of ops) ct,
          c_timingLog = js ''img-download;dur='' @ download_dur w
                        @ js '',img-transform;dur='' @ transform_dur w,
          c_transformedImage = img,
          c_effects = fx @ [Fetch (decodeUrl enc), SharpMetadata buf,
                            Sharp buf (sharp_calls_of (operationsJSON_of ops) orientation)]\<rparr>"
proof (cases rest)
  case Nil
  then show ?thesis
    unfolding transformed_def get_def
    using assms by (simp add: Let_def)
next
  case (Cons x xs)
  then show ?thesis
    unfolding transformed_def get_def
    using assms by (simp add: Let_def)
qed

lemma calm_transformed:
  "transformed (calm_world\<lparr>S3_TRANSFORMED_IMAGE_BUCKET := b, MAX_IMAGE_SIZE := m, s3_send := s\<rparr>)
     (get (js ''/proxy/aHR0cDovL2E'')) = Inr calm_computed"
proof -
  let ?w = "calm_world\<lparr>S3_TRANSFORMED_IMAGE_BUCKET := b, MAX_IMAGE_SIZE := m, s3_send := s\<rparr>"
  have p: "pathParts_of (js ''/proxy/aHR0cDovL2E'') = js ''proxy'' # js ''aHR0cDovL2E'' # []"
    by (simp add: pathParts_example)
  have m: "matches_http_url (decodeUrl (js ''aHR0cDovL2E''))"
    by (simp add: decodeUrl_example matches_example)
  have v: "validateUrl ?w (decodeUrl (js ''aHR0cDovL2E''))
     = (Inr \<lparr>protocol = js ''http:'', hostname = js ''a''\<rparr>,
        [Resolve4 (js ''a''), Resolve6 (js ''a'')])"
    unfolding decodeUrl_example
    by (rule validate_example) (simp_all add: calm_world_def)
  have f: "fetchExternalImage ?w (decodeUrl (js ''aHR0cDovL2E''))
             = Inr ([1, 2, 3], js ''image/png'')"
    unfolding decodeUrl_example
    by (rule fetch_example) (simp_all add: calm_world_def)
  have g: "sharp_metadata ?w [1, 2, 3] = Inr False"
    "sharp_toBuffer ?w [1, 2, 3] (sharp_calls_of (operationsJSON_of (js ''original'')) False)
       = Inr [7, 7, 7]"
    by (simp_all add: calm_world_def)
  have d: "download_dur ?w = js ''1''" "transform_dur ?w = js ''2''"
    by (simp_all add: calm_world_def)
  have l: "js ''img-download;dur='' @ js ''1'' @ js '',img-transform;dur='' @ js ''2''
             = js ''img-download;dur=1,img-transform;dur=2''"
    by (simp add: js_def)
  have "transformed ?w (get (js ''/proxy/aHR0cDovL2E'')) =
     Inr \<lparr>c_encodedUrl = js ''aHR0cDovL2E'', c_operationsPrefix = js ''original'',
          c_imageUrl = decodeUrl (js ''aHR0cDovL2E''),
          c_contentType = contentType_of (operationsJSON_of (js ''original'')) (js ''image/png''),
          c_timingLog = js ''img-download;dur='' @ download_dur ?w
                        @ js '',img-transform;dur='' @ transform_dur ?w,
          c_transformedImage = [7, 7, 7],
          c_effects = [Resolve4 (js ''a''), Resolve6 (js ''a'')]
                      @ [Fetch (decodeUrl (js ''aHR0cDovL2E'')), SharpMetadata [1, 2, 3],
                         Sharp [1, 2, 3]
                           (sharp_calls_of (operationsJSON_of (js ''original'')) False)]\<rparr>"
    by (rule transformed_success [OF p _ m v f g]) simp
  then show ?thesis
    unfolding d l operations_example decodeUrl_example calm_computed_def by simp
qed

lemma world_with_transformed:
  "transformed (world_with b m s) (get (js ''/proxy/aHR0cDovL2E'')) = Inr calm_computed"
  unfolding world_with_def by (rule calm_transformed)

lemma world_with_fields:
  "S3_TRANSFORMED_IMAGE_BUCKET (world_with b m s) = b"
  "MAX_IMAGE_SIZE (world_with b m s) = m"
  "s3_send (world_with b m s) = s"
  "upload_dur (world_with b m s) = js ''3''"
  "TRANSFORMED_IMAGE_CACHE_TTL (world_with b m s) = js ''max-age=31622400''"
  by (simp_all add: world_with_def calm_world_def)

section \<open>Error responses\<close>

text \<open>
  Claim C8, as the claim states it, fails at the edge stage: for a request without a query
  string the URL rewriter answers 400 with the plain text
  \<open>Missing required parameter: url\<close> as body and no headers at all, which is not the
  JSON error response.
\<close>

theorem edge_error_is_plain_text:
  "rewrite_handler bare_request = Respond missing_url
   \<and> body missing_url = Some (js ''Missing required parameter: url'')
   \<and> response_headers missing_url = None
   \<and> \<not> json_error_form missing_url"
  by (simp add: rewrite_handler_def bare_request_def missing_url_def json_error_form_def js_def)

text \<open>
  Claim C8, amended. Every response of the origin stage with a status other than 200 and
  307 has one of the statuses 400, 403, 413, 415, 500, 502, 504, the JSON body
  \<open>{"error": "<message>"}\<close> and the headers \<open>Content-Type: application/json\<close> and
  \<open>Cache-Control: no-store\<close>. The two error responses of the edge stage, for a missing or
  empty \<open>url\<close> parameter and for a \<open>url\<close> that is no http(s) URL, have status 400, the
  status description \<open>Bad Request\<close>, a plain-text body and no headers.
\<close>

theorem origin_errors_are_json:
  "(image_handler w event = (Response r, fx) \<and> statusCode r \<noteq> 200 \<and> statusCode r \<noteq> 307
     \<longrightarrow> statusCode r \<in> error_statuses \<and> json_error_form r
         \<and> (\<exists>msg. body r = Some (JSON_stringify_error msg))
         \<and> response_headers r = Some [(js ''Content-Type'', js ''application/json''),
                                      (js ''Cache-Control'', js ''no-store'')])
   \<and> (rewrite_handler request = Respond e
     \<longrightarrow> statusCode e = 400 \<and> statusDescription e = Some (js ''Bad Request'')
         \<and> response_headers e = None
         \<and> (body e = Some (js ''Missing required parameter: url'')
            \<or> body e = Some (js ''Invalid URL format'')))"
proof (intro conjI impI)
  assume h: "image_handler w event = (Response r, fx) \<and> statusCode r \<noteq> 200
             \<and> statusCode r \<noteq> 307"
  then obtain code msg where r: "r = sendError code msg" "code \<in> error_statuses"
    using handler_error_form by blast
  show "statusCode r \<in> error_statuses" using r by (simp add: sendError_def)
  show "json_error_form r" using r by (simp add: sendError_json)
  show "\<exists>msg. body r = Some (JSON_stringify_error msg)" using r by (auto simp: sendError_def)
  show "response_headers r = Some [(js ''Content-Type'', js ''application/json''),
                                   (js ''Cache-Control'', js ''no-store'')]"
    using r by (simp add: sendError_def)
next
  assume "rewrite_handler request = Respond e"
  then have e: "e = missing_url \<or> e = invalid_url" by (rule edge_error_form)
  show "statusCode e = 400" using e by (auto simp: missing_url_def invalid_url_def)
  show "statusDescription e = Some (js ''Bad Request'')"
    using e by (auto simp: missing_url_def invalid_url_def)
  show "response_headers e = None" using e by (auto simp: missing_url_def invalid_url_def)
  show "body e = Some (js ''Missing required parameter: url'')
        \<or> body e = Some (js ''Invalid URL format'')"
    using e by (auto simp: missing_url_def invalid_url_def)
qed

theorem origin_errors_are_json_witness:
  "image_handler calm_world None
     = (Response (sendError 400 (js ''Only GET method is supported'')), [])
   \<and> statusCode (sendError 400 (js ''Only GET method is supported'')) \<in> error_statuses
   \<and> json_error_form (sendError 400 (js ''Only GET method is supported''))
   \<and> rewrite_handler bare_request = Respond missing_url
   \<and> response_headers missing_url = None"
proof -
  have a: "image_handler calm_world None
             = (Response (sendError 400 (js ''Only GET method is supported'')), [])"
    by (simp add: image_handler_def transformed_def)
  have s: "statusCode (sendError 400 (js ''Only GET method is supported'')) \<noteq> 200"
    "statusCode (sendError 400 (js ''Only GET method is supported'')) \<noteq> 307"
    by (simp_all add: sendError_def)
  have b: "rewrite_handler bare_request = Respond missing_url"
    by (simp add: rewrite_handler_def bare_request_def js_def)
  from origin_errors_are_json
         [of calm_world None "sendError 400 (js ''Only GET method is supported'')" "[]"
             bare_request missing_url]
    a s b
  show ?thesis by blast
qed

section \<open>The cache writer: persist, then redirect or answer inline\<close>

text \<open>
  Claim C4. When durable storage is enabled and the upload succeeds, the handler has sent
  the transformed image to the store under the key \<open>encodedUrl + '/' + operations\<close>, both
  taken from the request path. If the image is longer than the configured maximum, the
  response is a 307 whose \<open>Location\<close> is \<open>/proxy/{encodedUrl}/{operations}\<close>, with
  \<open>Cache-Control: no-store\<close>; otherwise the image is returned inline with status 200.
\<close>

theorem oversize_redirect_after_persist:
  "transformed w event = Inr c \<and> truthy (S3_TRANSFORMED_IMAGE_BUCKET w)
   \<and> s3_send w (putImageCommand w c) = Inr ()
   \<longrightarrow> Key (putImageCommand w c) = c_encodedUrl c @ js ''/'' @ c_operationsPrefix c
       \<and> Body (putImageCommand w c) = c_transformedImage c
       \<and> S3Send (putImageCommand w c) \<in> set (snd (image_handler w event))
       \<and> (imageTooBig w c \<longleftrightarrow>
            (\<exists>m. MAX_IMAGE_SIZE w = Num m \<and> m < int (length (c_transformedImage c))))
       \<and> (imageTooBig w c \<longrightarrow>
            fst (image_handler w event) = Response (redirect_response w c))
       \<and> (\<not> imageTooBig w c \<longrightarrow>
            fst (image_handler w event)
              = Response (ok_response w c
                           (c_timingLog c @ js '',img-upload;dur='' @ upload_dur w)))
       \<and> (\<exists>http. event = Some http
              \<and> c_encodedUrl c = pathParts_of (path http) ! 1
              \<and> c_operationsPrefix c =
                  (if 2 < length (pathParts_of (path http)) then pathParts_of (path http) ! 2
                   else js ''original''))"
proof (intro impI)
  assume h: "transformed w event = Inr c \<and> truthy (S3_TRANSFORMED_IMAGE_BUCKET w)
             \<and> s3_send w (putImageCommand w c) = Inr ()"
  then have t: "transformed w event = Inr c" by simp
  have 1: "Key (putImageCommand w c) = c_encodedUrl c @ js ''/'' @ c_operationsPrefix c"
    "Body (putImageCommand w c) = c_transformedImage c"
    by (simp_all add: putImageCommand_def)
  have 2: "S3Send (putImageCommand w c) \<in> set (snd (image_handler w event))"
    using h by (simp add: image_handler_def store_def Let_def)
  have 3: "imageTooBig w c \<longleftrightarrow>
            (\<exists>m. MAX_IMAGE_SIZE w = Num m \<and> m < int (length (c_transformedImage c)))"
    by (simp add: imageTooBig_def split: jsnum.splits)
  have 4: "imageTooBig w c \<longrightarrow>
            fst (image_handler w event) = Response (redirect_response w c)"
    using h by (simp add: image_handler_def store_def Let_def redirect_response_def)
  have 5: "\<not> imageTooBig w c \<longrightarrow>
            fst (image_handler w event)
              = Response (ok_response w c
                           (c_timingLog c @ js '',img-upload;dur='' @ upload_dur w))"
    using h by (simp add: image_handler_def store_def Let_def inline_response_def ok_response_def)
  have 6: "\<exists>http. event = Some http
              \<and> c_encodedUrl c = pathParts_of (path http) ! 1
              \<and> c_operationsPrefix c =
                  (if 2 < length (pathParts_of (path http)) then pathParts_of (path http) ! 2
                   else js ''original'')"
    using transformed_computed [OF t] by blast
  show "Key (putImageCommand w c) = c_encodedUrl c @ js ''/'' @ c_operationsPrefix c
       \<and> Body (putImageCommand w c) = c_transformedImage c
       \<and> S3Send (putImageCommand w c) \<in> set (snd (image_handler w event))
       \<and> (imageTooBig w c \<longleftrightarrow>
            (\<exists>m. MAX_IMAGE_SIZE w = Num m \<and> m < int (length (c_transformedImage c))))
       \<and> (imageTooBig w c \<longrightarrow>
            fst (image_handler w event) = Response (redirect_response w c))
       \<and> (\<not> imageTooBig w c \<longrightarrow>
            fst (image_handler w event)
              = Response (ok_response w c
                           (c_timingLog c @ js '',img-upload;dur='' @ upload_dur w)))
       \<and> (\<exists>http. event = Some http
              \<and> c_encodedUrl c = pathParts_of (path http) ! 1
              \<and> c_operationsPrefix c =
                  (if 2 < length (pathParts_of (path http)) then pathParts_of (path http) ! 2
                   else js ''original''))"
    using 1 2 3 4 5 6 by blast
qed

theorem oversize_redirect_after_persist_witness:
  "transformed tight_world (get (js ''/proxy/aHR0cDovL2E'')) = Inr calm_computed
   \<and> truthy (S3_TRANSFORMED_IMAGE_BUCKET tight_world)
   \<and> s3_send tight_world (putImageCommand tight_world calm_computed) = Inr ()
   \<and> imageTooBig tight_world calm_computed
   \<and> Key (putImageCommand tight_world calm_computed) = js ''aHR0cDovL2E/original''
   \<and> fst (image_handler tight_world (get (js ''/proxy/aHR0cDovL2E'')))
       = Response (redirect_response tight_world calm_computed)
   \<and> statusCode (redirect_response tight_world calm_computed) = 307
   \<and> map_of (the (response_headers (redirect_response tight_world calm_computed)))
         (js ''Location'') = Some (js ''/proxy/aHR0cDovL2E/original'')
   \<and> transformed roomy_world (get (js ''/proxy/aHR0cDovL2E'')) = Inr calm_computed
   \<and> \<not> imageTooBig roomy_world calm_computed
   \<and> (\<exists>timing. fst (image_handler roomy_world (get (js ''/proxy/aHR0cDovL2E'')))
         = Response (ok_response roomy_world calm_computed timing))"
proof -
  let ?e = "get (js ''/proxy/aHR0cDovL2E'')"
  have t: "transformed tight_world ?e = Inr calm_computed"
    "transformed roomy_world ?e = Inr calm_computed"
    by (simp_all add: tight_world_def roomy_world_def world_with_transformed)
  have b: "truthy (S3_TRANSFORMED_IMAGE_BUCKET tight_world)"
    "truthy (S3_TRANSFORMED_IMAGE_BUCKET roomy_world)"
    by (simp_all add: tight_world_def roomy_world_def world_with_fields truthy_def js_def)
  have s: "s3_send tight_world (putImageCommand tight_world calm_computed) = Inr ()"
    "s3_send roomy_world (putImageCommand roomy_world calm_computed) = Inr ()"
    by (simp_all add: tight_world_def roomy_world_def world_with_fields accepting_store_def)
  have big: "imageTooBig tight_world calm_computed" "\<not> imageTooBig roomy_world calm_computed"
    by (simp_all add: imageTooBig_def tight_world_def roomy_world_def world_with_fields
          calm_computed_def)
  have k: "c_encodedUrl calm_computed @ js ''/'' @ c_operationsPrefix calm_computed
             = js ''aHR0cDovL2E/original''"
    by (simp add: calm_computed_def js_def)
  have r: "statusCode (redirect_response tight_world calm_computed) = 307"
    "map_of (the (response_headers (redirect_response tight_world calm_computed)))
       (js ''Location'') = Some (js ''/proxy/aHR0cDovL2E/original'')"
    by (simp_all add: redirect_response_def calm_computed_def js_def)
  note t1 = oversize_redirect_after_persist [of tight_world ?e calm_computed]
  note t2 = oversize_redirect_after_persist [of roomy_world ?e calm_computed]
  have 1: "Key (putImageCommand tight_world calm_computed) = js ''aHR0cDovL2E/original''"
    using t1 t(1) b(1) s(1) k by simp
  have 2: "fst (image_handler tight_world ?e)
             = Response (redirect_response tight_world calm_computed)"
    using t1 t(1) b(1) s(1) big(1) by blast
  have 3: "\<exists>timing. fst (image_handler roomy_world ?e)
             = Response (ok_response roomy_world calm_computed timing)"
    using t2 t(2) b(2) s(2) big(2) by blast
  show ?thesis
    using t b s big r 1 2 3 by simp
qed

section \<open>The cache writer: no store, or a store that fails\<close>

text \<open>
  Claim C5, as the claim states it, fails: with durable storage disabled and an image of
  three bytes over a ceiling of two, the handler does not return the image inline; it
  answers 413.
\<close>

theorem storage_disabled_oversize_rejected:
  "image_handler no_store_world (get (js ''/proxy/aHR0cDovL2E''))
     = (Response (sendError 413 (js ''Requested transformed image is too big'')),
        c_effects calm_computed)
   \<and> S3_TRANSFORMED_IMAGE_BUCKET no_store_world = None
   \<and> statusCode (sendError 413 (js ''Requested transformed image is too big'')) = 413"
  by (simp add: image_handler_def no_store_world_def world_with_transformed store_def
        world_with_fields truthy_def inline_response_def imageTooBig_def calm_computed_def
        sendError_def)

text \<open>
  Claim C5, amended. When durable storage is disabled nothing is sent to the store; the
  image is returned inline with status 200 when its length is within the configured
  maximum, and the request is rejected with status 413 when it exceeds it. When durable
  storage is enabled, the upload fails and the image is within the maximum, the handler
  falls through to the inline 200 response.
\<close>

theorem storage_disabled_or_failed:
  "transformed w event = Inr c \<longrightarrow>
     (\<not> truthy (S3_TRANSFORMED_IMAGE_BUCKET w) \<longrightarrow>
        (\<forall>put. S3Send put \<notin> set (snd (image_handler w event)))
        \<and> (\<not> imageTooBig w c \<longrightarrow>
             fst (image_handler w event) = Response (ok_response w c (c_timingLog c)))
        \<and> (imageTooBig w c \<longrightarrow>
             fst (image_handler w event)
               = Response (sendError 413 (js ''Requested transformed image is too big''))))
     \<and> (truthy (S3_TRANSFORMED_IMAGE_BUCKET w)
          \<and> s3_send w (putImageCommand w c) = Inl error \<and> \<not> imageTooBig w c \<longrightarrow>
        fst (image_handler w event) = Response (ok_response w c (c_timingLog c)))"
proof (intro impI conjI allI)
  assume t: "transformed w event = Inr c"
  {
    assume n: "\<not> truthy (S3_TRANSFORMED_IMAGE_BUCKET w)"
    then have h: "image_handler w event
                    = (Response (inline_response w c (c_timingLog c)), c_effects c)"
      using t by (simp add: image_handler_def store_def)
    fix put
    show "S3Send put \<notin> set (snd (image_handler w event))"
      using h transformed_no_put [OF t] by simp
  next
    assume n: "\<not> truthy (S3_TRANSFORMED_IMAGE_BUCKET w)"
    then have h: "image_handler w event
                    = (Response (inline_response w c (c_timingLog c)), c_effects c)"
      using t by (simp add: image_handler_def store_def)
    {
      assume "\<not> imageTooBig w c"
      then show "fst (image_handler w event) = Response (ok_response w c (c_timingLog c))"
        using h by (simp add: inline_response_def ok_response_def)
    next
      assume "imageTooBig w c"
      then show "fst (image_handler w event)
               = Response (sendError 413 (js ''Requested transformed image is too big''))"
        using h by (simp add: inline_response_def)
    }
  next
    assume "truthy (S3_TRANSFORMED_IMAGE_BUCKET w)
          \<and> s3_send w (putImageCommand w c) = Inl error \<and> \<not> imageTooBig w c"
    then show "fst (image_handler w event) = Response (ok_response w c (c_timingLog c))"
      using t by (simp add: image_handler_def store_def inline_response_def ok_response_def)
  }
qed

theorem storage_disabled_or_failed_witness:
  "transformed no_store_roomy_world (get (js ''/proxy/aHR0cDovL2E'')) = Inr calm_computed
   \<and> \<not> truthy (S3_TRANSFORMED_IMAGE_BUCKET no_store_roomy_world)
   \<and> \<not> imageTooBig no_store_roomy_world calm_computed
   \<and> fst (image_handler no_store_roomy_world (get (js ''/proxy/aHR0cDovL2E'')))
       = Response (ok_response no_store_roomy_world calm_computed (c_timingLog calm_computed))
   \<and> transformed no_store_world (get (js ''/proxy/aHR0cDovL2E'')) = Inr calm_computed
   \<and> imageTooBig no_store_world calm_computed
   \<and> fst (image_handler no_store_world (get (js ''/proxy/aHR0cDovL2E'')))
       = Response (sendError 413 (js ''Requested transformed image is too big''))
   \<and> transformed broken_store_world (get (js ''/proxy/aHR0cDovL2E'')) = Inr calm_computed
   \<and> truthy (S3_TRANSFORMED_IMAGE_BUCKET broken_store_world)
   \<and> s3_send broken_store_world (putImageCommand broken_store_world calm_computed)
       = Inl (Error (js ''store unavailable''))
   \<and> fst (image_handler broken_store_world (get (js ''/proxy/aHR0cDovL2E'')))
       = Response (ok_response broken_store_world calm_computed (c_timingLog calm_computed))"
proof -
  let ?e = "get (js ''/proxy/aHR0cDovL2E'')"
  have t: "transformed no_store_roomy_world ?e = Inr calm_computed"
    "transformed no_store_world ?e = Inr calm_computed"
    "transformed broken_store_world ?e = Inr calm_computed"
    by (simp_all add: no_store_roomy_world_def no_store_world_def broken_store_world_def
          world_with_transformed)
  have b: "\<not> truthy (S3_TRANSFORMED_IMAGE_BUCKET no_store_roomy_world)"
    "\<not> truthy (S3_TRANSFORMED_IMAGE_BUCKET no_store_world)"
    "truthy (S3_TRANSFORMED_IMAGE_BUCKET broken_store_world)"
    by (simp_all add: no_store_roomy_world_def no_store_world_def broken_store_world_def
          world_with_fields truthy_def js_def)
  have big: "\<not> imageTooBig no_store_roomy_world calm_computed"
    "imageTooBig no_store_world calm_computed"
    "\<not> imageTooBig broken_store_world calm_computed"
    by (simp_all add: imageTooBig_def no_store_roomy_world_def no_store_world_def
          broken_store_world_def world_with_fields calm_computed_def)
  have s: "s3_send broken_store_world (putImageCommand broken_store_world calm_computed)
             = Inl (Error (js ''store unavailable''))"
    by (simp add: broken_store_world_def world_with_fields failing_store_def)
  have 1: "fst (image_handler no_store_roomy_world ?e)
       = Response (ok_response no_store_roomy_world calm_computed (c_timingLog calm_computed))"
    using storage_disabled_or_failed [of no_store_roomy_world ?e calm_computed] t(1) b(1) big(1)
    by blast
  have 2: "fst (image_handler no_store_world ?e)
       = Response (sendError 413 (js ''Requested transformed image is too big''))"
    using storage_disabled_or_failed [of no_store_world ?e calm_computed] t(2) b(2) big(2)
    by blast
  have 3: "fst (image_handler broken_store_world ?e)
       = Response (ok_response broken_store_world calm_computed (c_timingLog calm_computed))"
    using storage_disabled_or_failed
            [of broken_store_world ?e calm_computed "Error (js ''store unavailable'')"]
      t(3) b(3) big(3) s
    by blast
  show ?thesis
    using t b big s 1 2 3 by simp
qed

section \<open>The origin stage: operations are applied as parsed\<close>

lemma rotate_sharp_calls: "rotate (sharp_calls_of obj orientation) = orientation"
  by (simp add: sharp_calls_of_def Let_def)

lemma transformed_ended_sharp:
  assumes "transformed w event = Inl (out, fx)" "Sharp buffer calls \<in> set fx"
  shows "\<exists>http. event = Some http
           \<and> calls = sharp_calls_of (operationsJSON_of (operationsPrefix_of (path http)))
                       (rotate calls)"
  using assms
  unfolding transformed_def Let_def operationsPrefix_of_def
  by (auto simp: validateUrl_def rotate_sharp_calls Let_def
           split: option.splits if_splits sum.splits prod.splits)

lemma sharp_effect_parsed:
  assumes "Sharp buffer calls \<in> set (snd (image_handler w event))"
  shows "\<exists>http. event = Some http
           \<and> calls = sharp_calls_of (operationsJSON_of (operationsPrefix_of (path http)))
                       (rotate calls)"
proof (cases "transformed w event")
  case (Inl ended)
  then show ?thesis
    using assms transformed_ended_sharp [of w event "fst ended" "snd ended"]
    by (simp add: image_handler_def)
next
  case (Inr c)
  obtain http where h: "event = Some http"
    "c_operationsPrefix c = operationsPrefix_of (path http)"
    using transformed_computed [OF Inr] by (auto simp: operationsPrefix_of_def)
  obtain host buf orientation where
    e: "c_effects c = [Resolve4 host, Resolve6 host, Fetch (c_imageUrl c), SharpMetadata buf,
                       Sharp buf (sharp_calls_of (operationsJSON_of (c_operationsPrefix c))
                                    orientation)]"
    using transformed_effects [OF Inr] by blast
  have "set (snd (image_handler w event)) \<subseteq> set (c_effects c) \<union> {S3Send (putImageCommand w c)}"
    using Inr by (auto simp: image_handler_def store_def Let_def split: sum.splits if_splits)
  then have "Sharp buffer calls \<in> set (c_effects c)"
    using assms by auto
  then have "calls = sharp_calls_of (operationsJSON_of (c_operationsPrefix c)) orientation"
    using e by simp
  then show ?thesis
    using h by (simp add: rotate_sharp_calls)
qed

lemma parseInt_999999: "parseInt (js ''999999'') = Num 999999"
  by (simp add: parseInt_def StrWhiteSpaceChar_def radix_digit_def digit_value_def js_def)

lemma parseInt_0: "parseInt (js ''0'') = Num 0"
  by (simp add: parseInt_def StrWhiteSpaceChar_def radix_digit_def digit_value_def js_def)

lemma unchecked_width:
  "sharp_calls_of (operationsJSON_of (js ''width=999999'')) orientation
     = \<lparr>resize = Some \<lparr>width = Some (Num 999999), height = None\<rparr>,
        rotate = orientation, toFormat = None\<rparr>"
proof -
  have o: "operationsJSON_of (js ''width=999999'') = [(js ''width'', Some (js ''999999''))]"
    by (simp add: operationsJSON_of_def entry_of_def js_def)
  have p: "property [(js ''width'', Some (js ''999999''))] (js ''width'') = Some (js ''999999'')"
    "property [(js ''width'', Some (js ''999999''))] (js ''height'') = None"
    "property [(js ''width'', Some (js ''999999''))] (js ''format'') = None"
    by (simp_all add: property_def js_def)
  have ne: "js ''999999'' \<noteq> []"
    by (simp add: js_def)
  show ?thesis
    unfolding o
    by (simp add: sharp_calls_of_def resizingOptions_of_def parsed_property_def p ne
          truthy_def number_truthy_def parseInt_999999)
qed

lemma unchecked_quality:
  "sharp_calls_of (operationsJSON_of (js ''format=jpeg,quality=0'')) orientation
     = \<lparr>resize = None, rotate = orientation, toFormat = Some (js ''jpeg'', Some (Num 0))\<rparr>"
proof -
  let ?obj = "[(js ''format'', Some (js ''jpeg'')), (js ''quality'', Some (js ''0''))]"
  have o: "operationsJSON_of (js ''format=jpeg,quality=0'') = ?obj"
    by (simp add: operationsJSON_of_def entry_of_def js_def)
  have p: "property ?obj (js ''width'') = None" "property ?obj (js ''height'') = None"
    "property ?obj (js ''format'') = Some (js ''jpeg'')"
    "property ?obj (js ''quality'') = Some (js ''0'')"
    by (simp_all add: property_def js_def)
  have ne: "js ''jpeg'' \<noteq> []" "js ''0'' \<noteq> []"
    by (simp_all add: js_def)
  show ?thesis
    unfolding o
    by (simp add: sharp_calls_of_def resizingOptions_of_def parsed_property_def p ne
          truthy_def number_truthy_def parseInt_0 format_switch_def)
qed

text \<open>
  Claim C10. Whatever the handler passes to the transformer is computed from the operations
  segment of the path by \<open>parseInt\<close> alone, with no check of a range: a width or height
  is the parsed value and is passed to \<open>resize\<close> whenever one of them is a non-zero number,
  and the quality is the parsed value whenever a lossy format is requested with it. So
  \<open>width=999999\<close> resizes to 999999 and \<open>format=jpeg,quality=0\<close> encodes with quality 0.
  Such a path reaches the handler because the URL rewriter returns every request whose
  path begins with \<open>/proxy/\<close> unchanged.
\<close>

theorem operations_applied_unchecked:
  "(Sharp buffer calls \<in> set (snd (image_handler w event)) \<longrightarrow>
      (\<exists>http. event = Some http
         \<and> calls = sharp_calls_of (operationsJSON_of (operationsPrefix_of (path http)))
                     (rotate calls)))
   \<and> (property obj (js ''width'') = Some v \<and> v \<noteq> [] \<longrightarrow>
        width (resizingOptions_of obj) = Some (parseInt v))
   \<and> (property obj (js ''height'') = Some v \<and> v \<noteq> [] \<longrightarrow>
        height (resizingOptions_of obj) = Some (parseInt v))
   \<and> (property obj (js ''width'') = Some v \<and> parseInt v = Num n \<and> n \<noteq> 0 \<longrightarrow>
        resize (sharp_calls_of obj orientation) = Some (resizingOptions_of obj))
   \<and> (property obj (js ''height'') = Some v \<and> parseInt v = Num n \<and> n \<noteq> 0 \<longrightarrow>
        resize (sharp_calls_of obj orientation) = Some (resizingOptions_of obj))
   \<and> (property obj (js ''format'') = Some f \<and> f \<noteq> [] \<and> snd (format_switch f)
       \<and> property obj (js ''quality'') = Some q \<and> q \<noteq> [] \<longrightarrow>
        toFormat (sharp_calls_of obj orientation) = Some (f, Some (parseInt q)))
   \<and> sharp_calls_of (operationsJSON_of (js ''width=999999'')) orientation
       = \<lparr>resize = Some \<lparr>width = Some (Num 999999), height = None\<rparr>,
          rotate = orientation, toFormat = None\<rparr>
   \<and> sharp_calls_of (operationsJSON_of (js ''format=jpeg,quality=0'')) orientation
       = \<lparr>resize = None, rotate = orientation, toFormat = Some (js ''jpeg'', Some (Num 0))\<rparr>
   \<and> (prefix (js ''/proxy/'') (uri request) \<longrightarrow> rewrite_handler request = Forward request)"
proof -
  have 1: "Sharp buffer calls \<in> set (snd (image_handler w event)) \<longrightarrow>
      (\<exists>http. event = Some http
         \<and> calls = sharp_calls_of (operationsJSON_of (operationsPrefix_of (path http)))
                     (rotate calls))"
    using sharp_effect_parsed by blast
  have 2: "property obj (js ''width'') = Some v \<and> v \<noteq> [] \<longrightarrow>
        width (resizingOptions_of obj) = Some (parseInt v)"
    "property obj (js ''height'') = Some v \<and> v \<noteq> [] \<longrightarrow>
        height (resizingOptions_of obj) = Some (parseInt v)"
    by (simp_all add: resizingOptions_of_def parsed_property_def truthy_def)
  have 3: "property obj (js ''width'') = Some v \<and> parseInt v = Num n \<and> n \<noteq> 0 \<longrightarrow>
        resize (sharp_calls_of obj orientation) = Some (resizingOptions_of obj)"
    "property obj (js ''height'') = Some v \<and> parseInt v = Num n \<and> n \<noteq> 0 \<longrightarrow>
        resize (sharp_calls_of obj orientation) = Some (resizingOptions_of obj)"
    using parseInt_empty
    by (auto simp: sharp_calls_of_def Let_def resizingOptions_of_def parsed_property_def
          truthy_def number_truthy_def)
  have 4: "property obj (js ''format'') = Some f \<and> f \<noteq> [] \<and> snd (format_switch f)
       \<and> property obj (js ''quality'') = Some q \<and> q \<noteq> [] \<longrightarrow>
        toFormat (sharp_calls_of obj orientation) = Some (f, Some (parseInt q))"
    by (simp add: sharp_calls_of_def Let_def truthy_def)
  have 5: "prefix (js ''/proxy/'') (uri request) \<longrightarrow> rewrite_handler request = Forward request"
    by (simp add: rewrite_handler_def indexOf_zero_iff)
  show ?thesis
    using 1 2 3 4 5 unchecked_width unchecked_quality by blast
qed


lemma pathParts_unchecked:
  "pathParts_of (js ''/proxy/aHR0cDovL2E/width=999999'')
     = js ''proxy'' # js ''aHR0cDovL2E'' # [js ''width=999999'']"
  by (simp add: pathParts_of_def js_def)

lemma calm_unchecked_effects:
  "Sharp [1, 2, 3] (sharp_calls_of (operationsJSON_of (js ''width=999999'')) False)
     \<in> set (snd (image_handler calm_world (get (js ''/proxy/aHR0cDovL2E/width=999999''))))"
proof -
  let ?calls = "sharp_calls_of (operationsJSON_of (js ''width=999999'')) False"
  have m: "matches_http_url (decodeUrl (js ''aHR0cDovL2E''))"
    by (simp add: decodeUrl_example matches_example)
  have v: "validateUrl calm_world (decodeUrl (js ''aHR0cDovL2E''))
     = (Inr \<lparr>protocol = js ''http:'', hostname = js ''a''\<rparr>,
        [Resolve4 (js ''a''), Resolve6 (js ''a'')])"
    unfolding decodeUrl_example
    by (rule validate_example) (simp_all add: calm_world_def)
  have f: "fetchExternalImage calm_world (decodeUrl (js ''aHR0cDovL2E''))
             = Inr ([1, 2, 3], js ''image/png'')"
    unfolding decodeUrl_example
    by (rule fetch_example) (simp_all add: calm_world_def)
  have g: "sharp_metadata calm_world [1, 2, 3] = Inr False"
    "sharp_toBuffer calm_world [1, 2, 3] ?calls = Inr [7, 7, 7]"
    by (simp_all add: calm_world_def)
  obtain c where c: "transformed calm_world (get (js ''/proxy/aHR0cDovL2E/width=999999'')) = Inr c"
    "c_effects c = [Resolve4 (js ''a''), Resolve6 (js ''a'')]
                   @ [Fetch (decodeUrl (js ''aHR0cDovL2E'')), SharpMetadata [1, 2, 3],
                      Sharp [1, 2, 3] ?calls]"
    using transformed_success [OF pathParts_unchecked _ m v f g] by simp
  have "set (c_effects c) \<subseteq> set (snd (image_handler calm_world
                                         (get (js ''/proxy/aHR0cDovL2E/width=999999''))))"
    using c(1) by (auto simp: image_handler_def store_def Let_def split: sum.splits if_splits)
  then show ?thesis
    using c(2) by auto
qed

theorem operations_applied_unchecked_witness:
  "prefix (js ''/proxy/'') (uri unchecked_request)
   \<and> rewrite_handler unchecked_request = Forward unchecked_request
   \<and> Sharp [1, 2, 3] \<lparr>resize = Some \<lparr>width = Some (Num 999999), height = None\<rparr>,
                       rotate = False, toFormat = None\<rparr>
       \<in> set (snd (image_handler calm_world (get (uri unchecked_request))))"
proof -
  have p: "prefix (js ''/proxy/'') (uri unchecked_request)"
    by (simp add: unchecked_request_def js_def)
  have u: "uri unchecked_request = js ''/proxy/aHR0cDovL2E/width=999999''"
    by (simp add: unchecked_request_def)
  note t = operations_applied_unchecked [where request = unchecked_request and orientation = False]
  have 1: "rewrite_handler unchecked_request = Forward unchecked_request"
    using t p by blast
  have 2: "sharp_calls_of (operationsJSON_of (js ''width=999999'')) False
       = \<lparr>resize = Some \<lparr>width = Some (Num 999999), height = None\<rparr>,
          rotate = False, toFormat = None\<rparr>"
    using t by blast
  show ?thesis
    using p 1 calm_unchecked_effects unfolding u 2 by simp
qed

section \<open>The origin guard\<close>









text \<open>
  The comments of lines 27, 28 and 31 to 34 name 224.0.0.0/4, 240.0.0.0/4 and the IPv6
  link-local, unique local and multicast addresses, but the patterns beside them,
  \<open>/^224\./\<close>, \<open>/^240\./\<close>, \<open>/^fe80:/i\<close>, \<open>/^fc00:/i\<close>, \<open>/^fd00:/i\<close> and
  \<open>/^ff00:/i\<close>, match one leading group each. Addresses of these ranges such as
  239.1.2.3, 241.0.0.1, \<open>fd12:3456::1\<close> and \<open>ff02::1\<close> match no pattern of the list, so
  the guard lets them pass.
\<close>

lemma other_multicast_address_passes: "\<not> blocked_ip (js ''239.1.2.3'')"
  by (simp add: blocked_ip_def BLOCKED_IP_RANGES_def range_172_def prefix_ci_def
        toLowerCase_def lower_unit_def js_def)

lemma other_reserved_address_passes: "\<not> blocked_ip (js ''241.0.0.1'')"
  by (simp add: blocked_ip_def BLOCKED_IP_RANGES_def range_172_def prefix_ci_def
        toLowerCase_def lower_unit_def js_def)

lemma other_unique_local_address_passes: "\<not> blocked_ip (js ''fd12:3456::1'')"
  by (simp add: blocked_ip_def BLOCKED_IP_RANGES_def range_172_def prefix_ci_def
        toLowerCase_def lower_unit_def js_def)

lemma other_ipv6_multicast_address_passes: "\<not> blocked_ip (js ''ff02::1'')"
  by (simp add: blocked_ip_def BLOCKED_IP_RANGES_def range_172_def prefix_ci_def
        toLowerCase_def lower_unit_def js_def)











section \<open>The round trip of the URL token\<close>

subsection \<open>Regrouping the bits of one round\<close>

lemma mask_consts: "(63 :: 32 word) = mask 6"
  by (simp add: mask_eq_exp_minus_1)

lemma sextet_bit:
  fixes w :: "32 word"
  assumes "k \<le> 18"
  shows "bit (push_bit k (signed_drop_bit k w AND 63)) n \<longleftrightarrow> k \<le> n \<and> n < k + 6 \<and> bit w n"
proof (cases "k \<le> n \<and> n < k + 6")
  case True
  have "k + (n - k) = n" "n - k < 6" "n < 32" "\<not> 32 - k \<le> n - k"
    using assms True by arith+
  then show ?thesis
    using True unfolding mask_consts
    by (simp only: bit_push_bit_iff bit_and_iff bit_mask_iff bit_signed_drop_bit_iff
          possible_bit_word len_num1 len_bit0 One_nat_def)
       simp
next
  case False
  then show ?thesis
    unfolding mask_consts
    by (simp only: bit_push_bit_iff bit_and_iff bit_mask_iff) arith
qed

lemma low_sextet_bit:
  fixes w :: "32 word"
  shows "bit (w AND 63) n \<longleftrightarrow> n < 6 \<and> bit w n"
  unfolding mask_consts by (auto simp: bit_simps)

lemma regroup4:
  fixes w :: "32 word"
  shows "push_bit 18 (signed_drop_bit 18 w AND 63) OR push_bit 12 (signed_drop_bit 12 w AND 63)
         OR push_bit 6 (signed_drop_bit 6 w AND 63) OR (w AND 63) = take_bit 24 w"
proof (rule bit_word_eqI)
  fix n
  show "bit (push_bit 18 (signed_drop_bit 18 w AND 63) OR push_bit 12 (signed_drop_bit 12 w AND 63)
         OR push_bit 6 (signed_drop_bit 6 w AND 63) OR (w AND 63)) n \<longleftrightarrow> bit (take_bit 24 w) n"
    by (simp only: bit_or_iff sextet_bit low_sextet_bit bit_take_bit_iff) arith
qed

lemma sextet_bits:
  fixes w :: "32 word"
  shows "bit (push_bit 18 (signed_drop_bit 18 w AND 63)) n \<longleftrightarrow> 18 \<le> n \<and> n < 24 \<and> bit w n"
    and "bit (push_bit 12 (signed_drop_bit 12 w AND 63)) n \<longleftrightarrow> 12 \<le> n \<and> n < 18 \<and> bit w n"
    and "bit (push_bit 6 (signed_drop_bit 6 w AND 63)) n \<longleftrightarrow> 6 \<le> n \<and> n < 12 \<and> bit w n"
  using sextet_bit [of 18 w n] sextet_bit [of 12 w n] sextet_bit [of 6 w n] by simp_all

lemma bits4:
  fixes w :: "32 word"
  shows "bit (push_bit 18 (signed_drop_bit 18 w AND 63) OR push_bit 12 (signed_drop_bit 12 w AND 63)
              OR push_bit 6 (signed_drop_bit 6 w AND 63) OR (w AND 63)) m
         \<longleftrightarrow> m < 24 \<and> bit w m"
  by (simp only: bit_or_iff sextet_bits low_sextet_bit) arith

lemma bits3:
  fixes w :: "32 word"
  shows "bit (push_bit 18 (signed_drop_bit 18 w AND 63) OR push_bit 12 (signed_drop_bit 12 w AND 63)
              OR push_bit 6 (signed_drop_bit 6 w AND 63)) m
         \<longleftrightarrow> 6 \<le> m \<and> m < 24 \<and> bit w m"
  by (simp only: bit_or_iff sextet_bits) arith

lemma bits2:
  fixes w :: "32 word"
  shows "bit (push_bit 18 (signed_drop_bit 18 w AND 63) OR push_bit 12 (signed_drop_bit 12 w AND 63)) m
         \<longleftrightarrow> 12 \<le> m \<and> m < 24 \<and> bit w m"
  by (simp only: bit_or_iff sextet_bits) arith

lemma byte_bits:
  fixes b :: "16 word"
  assumes "b < 256"
  shows "bit b m \<Longrightarrow> m < 8"
proof -
  have "unat b < 2 ^ 8"
    using assms by (simp add: word_less_nat_alt)
  then have "take_bit 8 (unat b) = unat b"
    by (rule take_bit_nat_eq_self)
  then have "bit (unat b) m \<longleftrightarrow> m < 8 \<and> bit (unat b) m"
    by (metis bit_take_bit_iff)
  moreover assume "bit b m"
  then have "bit (unat b) m"
    by (simp add: bit_unsigned_iff bit_imp_possible_bit)
  ultimately show "m < 8" by simp
qed

lemma bitmap_bits:
  fixes A B C :: "32 word"
  assumes "\<And>m. bit B m \<Longrightarrow> m < 8" "\<And>m. bit C m \<Longrightarrow> m < 8" "n < 8"
  shows "bit (push_bit 16 A OR push_bit 8 B OR C) (16 + n) \<longleftrightarrow> bit A n"
    and "bit (push_bit 16 A OR push_bit 8 B OR C) (8 + n) \<longleftrightarrow> bit B n"
    and "bit (push_bit 16 A OR push_bit 8 B OR C) n \<longleftrightarrow> bit C n"
proof -
  have b: "\<not> bit B (8 + n)"
    using assms(1) [of "8 + n"] by auto
  have c: "\<not> bit C (16 + n)" "\<not> bit C (8 + n)"
    using assms(2) [of "16 + n"] assms(2) [of "8 + n"] by auto
  show "bit (push_bit 16 A OR push_bit 8 B OR C) (16 + n) \<longleftrightarrow> bit A n"
    using assms(3) b c by (simp add: bit_or_iff bit_push_bit_iff)
  show "bit (push_bit 16 A OR push_bit 8 B OR C) (8 + n) \<longleftrightarrow> bit B n"
    using assms(3) b c by (simp add: bit_or_iff bit_push_bit_iff)
  show "bit (push_bit 16 A OR push_bit 8 B OR C) n \<longleftrightarrow> bit C n"
    using assms(3) b c by (simp add: bit_or_iff bit_push_bit_iff)
qed

subsection \<open>The encoder in terms of six-bit values\<close>

lemma length_base64chars: "length base64chars = 64"
  by (simp add: base64chars_def js_def)

lemma sextet_small: "unat ((x :: 32 word) AND 63) < 64"
proof -
  have "unat (x AND 63) \<le> unat (63 :: 32 word)"
    by (rule word_and_le1 [THEN word_le_nat_alt [THEN iffD1]])
  then show ?thesis by simp
qed

lemma charAt_sextet: "charAt base64chars (unat ((x :: 32 word) AND 63)) = [b64char (x AND 63)]"
  by (simp add: charAt_def b64char_def length_base64chars sextet_small)

lemma encode_round_form:
  "encode_round a b c 3 = map b64char (round_sextets a b c)"
  "encode_round a b c 2 = map b64char (take 3 (round_sextets a b c)) @ js ''=''"
  "encode_round a b c (Suc 0) = map b64char (take 2 (round_sextets a b c)) @ js ''==''"
  by (simp_all only: encode_round_def round_sextets_def Let_def charAt_sextet)
     (simp_all add: js_def)

lemma base64Encode_form:
  "base64Encode u = map b64char (encoded_sextets u) @ base64_padding u"
  by (induction u rule: base64Encode.induct) (simp_all add: encode_round_form)

lemma round_sextets_small: "v \<in> set (round_sextets a b c) \<Longrightarrow> unat v < 64"
  using sextet_small by (auto simp: round_sextets_def Let_def)

lemma encoded_sextets_small: "v \<in> set (encoded_sextets u) \<Longrightarrow> unat v < 64"
proof (induction u arbitrary: v rule: encoded_sextets.induct)
  case 1
  then show ?case by simp
next
  case (2 a)
  then show ?case using round_sextets_small by (auto dest: in_set_takeD)
next
  case (3 a b)
  then show ?case using round_sextets_small by (auto dest: in_set_takeD)
next
  case (4 a b c rest)
  then show ?case using round_sextets_small by auto
qed


lemma ucast_low_byte: "(ucast (ucast (a :: 16 word) :: 32 word) :: 8 word) = ucast a"
  by (rule bit_word_eqI) (simp add: bit_ucast_iff)

lemma group_round4:
  fixes A B C :: "32 word"
  assumes "\<And>m. bit B m \<Longrightarrow> m < 8" "\<And>m. bit C m \<Longrightarrow> m < 8"
  shows "group_bytes (round_sextets A B C @ rest)
           = [ucast A, ucast B, ucast C] @ group_bytes rest"
proof -
  let ?w = "push_bit 16 A OR push_bit 8 B OR C"
  let ?v = "push_bit 18 (signed_drop_bit 18 ?w AND 63) OR push_bit 12 (signed_drop_bit 12 ?w AND 63)
            OR push_bit 6 (signed_drop_bit 6 ?w AND 63) OR (?w AND 63)"
  have 0: "(ucast (drop_bit 16 ?v) :: 8 word) = ucast A"
  proof (rule bit_word_eqI)
    fix n assume "n < LENGTH(8)"
    then have n: "n < 8" by simp
    have "bit (ucast (drop_bit 16 ?v) :: 8 word) n \<longleftrightarrow> bit ?v (16 + n)"
      using n by (simp only: bit_ucast_iff bit_drop_bit_eq comp_def) simp
    also have "\<dots> \<longleftrightarrow> bit ?w (16 + n)"
      using n by (simp only: bits4) simp
    also have "\<dots> \<longleftrightarrow> bit A n"
      using assms n by (rule bitmap_bits(1))
    also have "\<dots> \<longleftrightarrow> bit (ucast A :: 8 word) n"
      using n by (simp add: bit_ucast_iff)
    finally show "bit (ucast (drop_bit 16 ?v) :: 8 word) n \<longleftrightarrow> bit (ucast A :: 8 word) n" .
  qed
  have 1: "(ucast (drop_bit 8 ?v) :: 8 word) = ucast B"
  proof (rule bit_word_eqI)
    fix n assume "n < LENGTH(8)"
    then have n: "n < 8" by simp
    have "bit (ucast (drop_bit 8 ?v) :: 8 word) n \<longleftrightarrow> bit ?v (8 + n)"
      using n by (simp only: bit_ucast_iff bit_drop_bit_eq comp_def) simp
    also have "\<dots> \<longleftrightarrow> bit ?w (8 + n)"
      using n by (simp only: bits4) simp
    also have "\<dots> \<longleftrightarrow> bit B n"
      using assms n by (rule bitmap_bits(2))
    also have "\<dots> \<longleftrightarrow> bit (ucast B :: 8 word) n"
      using n by (simp add: bit_ucast_iff)
    finally show "bit (ucast (drop_bit 8 ?v) :: 8 word) n \<longleftrightarrow> bit (ucast B :: 8 word) n" .
  qed
  have 2: "(ucast ?v :: 8 word) = ucast C"
  proof (rule bit_word_eqI)
    fix n assume "n < LENGTH(8)"
    then have n: "n < 8" by simp
    have "bit (ucast ?v :: 8 word) n \<longleftrightarrow> bit ?v n"
      using n by (simp only: bit_ucast_iff) simp
    also have "\<dots> \<longleftrightarrow> bit ?w n"
      using n by (simp only: bits4) simp
    also have "\<dots> \<longleftrightarrow> bit C n"
      using assms n by (rule bitmap_bits(3))
    also have "\<dots> \<longleftrightarrow> bit (ucast C :: 8 word) n"
      using n by (simp add: bit_ucast_iff)
    finally show "bit (ucast ?v :: 8 word) n \<longleftrightarrow> bit (ucast C :: 8 word) n" .
  qed
  show ?thesis
    by (simp only: round_sextets_def Let_def append_Cons append_Nil group_bytes.simps 0 1 2)
qed


lemma group_round3:
  fixes A B :: "32 word"
  assumes "\<And>m. bit B m \<Longrightarrow> m < 8"
  shows "group_bytes (take 3 (round_sextets A B 0)) = [ucast A, ucast B]"
proof -
  let ?w = "push_bit 16 A OR push_bit 8 B OR 0"
  let ?v = "push_bit 18 (signed_drop_bit 18 ?w AND 63) OR push_bit 12 (signed_drop_bit 12 ?w AND 63)
            OR push_bit 6 (signed_drop_bit 6 ?w AND 63)"
  have z: "\<And>m. bit (0 :: 32 word) m \<Longrightarrow> m < 8"
    by simp
  have 0: "(ucast (drop_bit 16 ?v) :: 8 word) = ucast A"
  proof (rule bit_word_eqI)
    fix n assume "n < LENGTH(8)"
    then have n: "n < 8" by simp
    have "bit (ucast (drop_bit 16 ?v) :: 8 word) n \<longleftrightarrow> bit ?v (16 + n)"
      using n by (simp only: bit_ucast_iff bit_drop_bit_eq comp_def) simp
    also have "\<dots> \<longleftrightarrow> bit ?w (16 + n)"
      using n by (simp only: bits3) simp
    also have "\<dots> \<longleftrightarrow> bit A n"
      using assms z n by (rule bitmap_bits(1))
    also have "\<dots> \<longleftrightarrow> bit (ucast A :: 8 word) n"
      using n by (simp add: bit_ucast_iff)
    finally show "bit (ucast (drop_bit 16 ?v) :: 8 word) n \<longleftrightarrow> bit (ucast A :: 8 word) n" .
  qed
  have 1: "(ucast (drop_bit 8 ?v) :: 8 word) = ucast B"
  proof (rule bit_word_eqI)
    fix n assume "n < LENGTH(8)"
    then have n: "n < 8" by simp
    have "bit (ucast (drop_bit 8 ?v) :: 8 word) n \<longleftrightarrow> bit ?v (8 + n)"
      using n by (simp only: bit_ucast_iff bit_drop_bit_eq comp_def) simp
    also have "\<dots> \<longleftrightarrow> bit ?w (8 + n)"
      using n by (simp only: bits3) simp
    also have "\<dots> \<longleftrightarrow> bit B n"
      using assms z n by (rule bitmap_bits(2))
    also have "\<dots> \<longleftrightarrow> bit (ucast B :: 8 word) n"
      using n by (simp add: bit_ucast_iff)
    finally show "bit (ucast (drop_bit 8 ?v) :: 8 word) n \<longleftrightarrow> bit (ucast B :: 8 word) n" .
  qed
  have t: "take 3 (round_sextets A B 0)
             = [signed_drop_bit 18 ?w AND 63, signed_drop_bit 12 ?w AND 63,
                signed_drop_bit 6 ?w AND 63]"
    by (simp only: round_sextets_def Let_def) (simp add: numeral_3_eq_3)
  show ?thesis
    unfolding t by (simp only: Let_def group_bytes.simps 0 1)
qed

lemma group_round2:
  fixes A :: "32 word"
  shows "group_bytes (take 2 (round_sextets A 0 0)) = [ucast A]"
proof -
  let ?w = "push_bit 16 A OR push_bit 8 0 OR 0"
  let ?v = "push_bit 18 (signed_drop_bit 18 ?w AND 63) OR push_bit 12 (signed_drop_bit 12 ?w AND 63)"
  have z: "\<And>m. bit (0 :: 32 word) m \<Longrightarrow> m < 8"
    by simp
  have 0: "(ucast (drop_bit 16 ?v) :: 8 word) = ucast A"
  proof (rule bit_word_eqI)
    fix n assume "n < LENGTH(8)"
    then have n: "n < 8" by simp
    have "bit (ucast (drop_bit 16 ?v) :: 8 word) n \<longleftrightarrow> bit ?v (16 + n)"
      using n by (simp only: bit_ucast_iff bit_drop_bit_eq comp_def) simp
    also have "\<dots> \<longleftrightarrow> bit ?w (16 + n)"
      using n by (simp only: bits2) simp
    also have "\<dots> \<longleftrightarrow> bit A n"
      using z z n by (rule bitmap_bits(1))
    also have "\<dots> \<longleftrightarrow> bit (ucast A :: 8 word) n"
      using n by (simp add: bit_ucast_iff)
    finally show "bit (ucast (drop_bit 16 ?v) :: 8 word) n \<longleftrightarrow> bit (ucast A :: 8 word) n" .
  qed
  have t: "take 2 (round_sextets A 0 0)
             = [signed_drop_bit 18 ?w AND 63, signed_drop_bit 12 ?w AND 63]"
    by (simp only: round_sextets_def Let_def) (simp add: numeral_2_eq_2)
  show ?thesis
    unfolding t by (simp only: Let_def group_bytes.simps 0)
qed

lemma ucast_byte_bits:
  fixes b :: "16 word"
  assumes "b < 256"
  shows "bit (ucast b :: 32 word) m \<Longrightarrow> m < 8"
  using byte_bits [OF assms, of m] by (simp add: bit_ucast_iff)

lemma group_encoded:
  assumes "\<forall>c \<in> set u. c < 256"
  shows "group_bytes (encoded_sextets u) = map ucast u"
  using assms
proof (induction u rule: encoded_sextets.induct)
  case 1
  then show ?case by simp
next
  case (2 a)
  then show ?case by (simp add: group_round2 ucast_low_byte)
next
  case (3 a b)
  then have b: "b < 256" by simp
  have "group_bytes (take 3 (round_sextets (ucast a) (ucast b) 0))
          = [ucast (ucast a :: 32 word), ucast (ucast b :: 32 word)]"
    by (rule group_round3) (auto dest: ucast_byte_bits [OF b])
  then show ?case by (simp add: ucast_low_byte)
next
  case (4 a b c rest)
  then have b: "b < 256" and c: "c < 256" and r: "\<forall>c \<in> set rest. c < 256"
    by simp_all
  have "group_bytes (round_sextets (ucast a) (ucast b) (ucast c) @ encoded_sextets rest)
          = [ucast (ucast a :: 32 word), ucast (ucast b :: 32 word), ucast (ucast c :: 32 word)]
            @ group_bytes (encoded_sextets rest)"
    by (rule group_round4) (auto dest: ucast_byte_bits [OF b] ucast_byte_bits [OF c])
  then show ?case using 4 r by (simp add: ucast_low_byte)
qed

subsection \<open>The alphabet and the decoder\<close>

lemma alphabet_check: "list_all decodable (enumerate 0 base64chars)"
  by (simp add: base64chars_def js_def decodable_def url_char_def plain_char_def unbase64_def)

lemma alphabet:
  assumes "unat v < 64"
  shows "url_char (b64char v) \<noteq> 0x3D"
    "(ucast (plain_char (url_char (b64char v))) :: 8 word) \<noteq> 0x3D"
    "unbase64 (ucast (plain_char (url_char (b64char v)))) = Some v"
proof -
  have "(unat v, base64chars ! unat v) \<in> set (enumerate 0 base64chars)"
    using assms by (simp add: in_set_enumerate_eq length_base64chars)
  then have "decodable (unat v, base64chars ! unat v)"
    using alphabet_check unfolding list_all_iff by blast
  then show "url_char (b64char v) \<noteq> 0x3D"
    "(ucast (plain_char (url_char (b64char v))) :: 8 word) \<noteq> 0x3D"
    "unbase64 (ucast (plain_char (url_char (b64char v)))) = Some v"
    by (simp_all add: decodable_def b64char_def)
qed

lemma replace_url: "replace_char 0x2F 0x5F (replace_char 0x2B 0x2D s) = map url_char s"
  by (simp add: replace_char_def url_char_def)

lemma replace_plain: "replace_char 0x5F 0x2F (replace_char 0x2D 0x2B s) = map plain_char s"
  by (simp add: replace_char_def plain_char_def)

lemma padding_equals: "c \<in> set (base64_padding u) \<Longrightarrow> c = 0x3D"
  by (induction u rule: base64_padding.induct) (auto simp: js_def)

lemma url_char_padding: "map url_char (base64_padding u) = base64_padding u"
  by (rule map_idI) (auto dest: padding_equals simp: url_char_def)

lemma encodeUrl_form: "encodeUrl u = map (url_char \<circ> b64char) (encoded_sextets u)"
proof -
  let ?xs = "map (url_char \<circ> b64char) (encoded_sextets u)"
  have e: "replace_char 0x2F 0x5F (replace_char 0x2B 0x2D (base64Encode u))
             = ?xs @ base64_padding u"
    by (simp add: replace_url base64Encode_form url_char_padding)
  have n: "\<forall>c \<in> set (rev ?xs). \<not> c = 0x3D"
    using alphabet(1) encoded_sextets_small by auto
  have 1: "dropWhile (\<lambda>c. c = 0x3D) (rev ?xs) = rev ?xs"
    using n by (cases "rev ?xs") auto
  have 2: "dropWhile (\<lambda>c. c = 0x3D) (rev (base64_padding u) @ rev ?xs)
          = dropWhile (\<lambda>c. c = 0x3D) (rev ?xs)"
    by (rule dropWhile_append2) (auto dest: padding_equals)
  have "strip_padding (?xs @ base64_padding u) = ?xs"
    unfolding strip_padding_def rev_append 2 1 by simp
  then show ?thesis
    by (simp add: encodeUrl_def e)
qed

lemma sextets_of_plain:
  assumes "\<forall>v \<in> set vs. unat v < 64"
  shows "sextets (map (plain_char \<circ> (url_char \<circ> b64char)) vs) = vs"
  using assms by (induction vs) (simp_all add: alphabet)

lemma decode_bytes:
  assumes "\<forall>c \<in> set u. c < 256"
  shows "Buffer_from_base64 (replace_char 0x5F 0x2F (replace_char 0x2D 0x2B (encodeUrl u)))
           = map ucast u"
proof -
  have "replace_char 0x5F 0x2F (replace_char 0x2D 0x2B (encodeUrl u))
          = map (plain_char \<circ> (url_char \<circ> b64char)) (encoded_sextets u)"
    by (simp add: encodeUrl_form replace_plain)
  then show ?thesis
    using assms
    by (simp add: Buffer_from_base64_def sextets_of_plain encoded_sextets_small group_encoded)
qed

lemma ascii_start:
  fixes c :: "16 word"
  assumes "c < 128"
  shows "start_byte (ucast c) = Emit (unat c)"
proof -
  have "unat c < 128"
    using assms by (simp add: word_less_nat_alt)
  then have "unat (ucast c :: 8 word) = unat c"
    by (simp add: unsigned_ucast_eq take_bit_nat_eq_self)
  then show ?thesis
    using \<open>unat c < 128\<close> by (simp add: start_byte_def)
qed

lemma utf8_points_ascii:
  fixes u :: jsstring
  assumes "\<forall>c \<in> set u. c < 128"
  shows "utf8_points 0 0 0x80 0xBF (map ucast u) = map unat u"
  using assms
proof (induction u)
  case Nil
  then show ?case by simp
next
  case (Cons a u)
  then have "start_byte (ucast a) = Emit (unat a)"
    by (simp add: ascii_start)
  then show ?case
    using Cons by simp
qed

lemma utf16_units_unat: "utf16_units (unat (c :: 16 word)) = [c]"
proof -
  have "unat c < 2 ^ 16"
    using unsigned_less [of c] by simp
  then show ?thesis
    by (simp add: utf16_units_def)
qed

lemma toString_ascii:
  assumes "\<forall>c \<in> set u. c < 128"
  shows "toString_utf8 (map ucast u) = u"
proof -
  have "concat (map utf16_units (map unat u)) = u"
    by (induction u) (simp_all add: utf16_units_unat)
  then show ?thesis
    using assms by (simp add: toString_utf8_def utf8_points_ascii)
qed

lemma ascii_is_byte: "(c :: 16 word) < 128 \<Longrightarrow> c < 256"
  by (simp add: word_less_nat_alt)

lemma accented_url_matches: "matches_http_url accented_url"
  by (simp add: accented_url_def matches_http_url_def starts_with_ci_def toLowerCase_def
      lower_unit_def LineTerminator_def js_def)

lemma accented_url_encoded: "encodeUrl accented_url = accented_token"
  by (simp add: accented_url_def accented_token_def encodeUrl_def encode_round_def
      base64chars_def charAt_def strip_padding_def replace_char_def js_def)

lemma accented_token_decoded: "decodeUrl accented_token = js ''http://'' @ [0xFFFD]"
  by (simp add: accented_token_def decodeUrl_def replace_char_def Buffer_from_base64_def
      unbase64_def toString_utf8_def start_byte_def utf16_units_def js_def)

text \<open>
  Claim C2, as the claim states it, fails. The URL \<open>http://\<close> followed by \<open>U+00E9\<close>
  matches \<open>^https?://.+\<close>. The edge encoder takes one byte from each UTF-16 code unit
  (\<open>charCodeAt\<close>, url-rewrite line 45), so the token carries the single byte \<open>0xE9\<close>
  for the last character. The origin decoder reads the bytes as UTF-8 (image-processing
  line 158), where \<open>0xE9\<close> opens a three-byte sequence that never continues, and returns
  \<open>U+FFFD\<close> in its place. Decoding the encoding of this URL does not return the URL.
\<close>

theorem accented_url_not_restored:
  "matches_http_url accented_url
   \<and> decodeUrl (encodeUrl accented_url) = js ''http://'' @ [0xFFFD]
   \<and> decodeUrl (encodeUrl accented_url) \<noteq> accented_url"
proof -
  have d: "decodeUrl (encodeUrl accented_url) = js ''http://'' @ [0xFFFD]"
    by (simp only: accented_url_encoded accented_token_decoded)
  have "js ''http://'' @ [0xFFFD] \<noteq> accented_url"
    by (simp add: accented_url_def)
  then show ?thesis
    using d accented_url_matches by simp
qed

text \<open>
  Claim C2, amended: for every string whose code units are all below 128, that is every
  ASCII URL, decoding the edge stage's encoding returns the string exactly. The encoding is
  \<open>encodeUrl\<close> (base64 with \<open>+\<close> and \<open>/\<close> replaced by \<open>-\<close> and \<open>_\<close>, trailing
  padding stripped) and the decoding is \<open>decodeUrl\<close> (the substitution reversed, base64
  decoded, the bytes read as UTF-8).
\<close>

theorem ascii_url_round_trip:
  "(\<forall>c \<in> set u. c < 128) \<longrightarrow> decodeUrl (encodeUrl u) = u"
proof
  assume a: "\<forall>c \<in> set u. c < 128"
  then have "\<forall>c \<in> set u. c < 256"
    using ascii_is_byte by blast
  then show "decodeUrl (encodeUrl u) = u"
    using a by (simp add: decodeUrl_def decode_bytes toString_ascii)
qed

theorem ascii_url_round_trip_witness:
  "list_all (\<lambda>c. c < 128) (js ''http://a'') \<and> matches_http_url (js ''http://a'')
   \<and> decodeUrl (encodeUrl (js ''http://a'')) = js ''http://a''"
proof -
  have a: "\<forall>c \<in> set (js ''http://a''). c < 128"
    by (simp add: js_def)
  have "decodeUrl (encodeUrl (js ''http://a'')) = js ''http://a''"
    using ascii_url_round_trip [of "js ''http://a''"] a by blast
  then show ?thesis
    using a matches_example by (simp add: list_all_iff)
qed

end
